theory Spec2Isabelle
  imports Complex_Main "HOL-Library.Word" "HOL-Library.Product_Lexorder"
begin

unbundle bit_operations_syntax

section \<open>The occupancy grid node of cartographer\_ros\<close>

text \<open>
  A shallow embedding of \<^verbatim>\<open>occupancy_grid_node_main.cc\<close>: the submap cache
  (\<^verbatim>\<open>Node::HandleSubmapList\<close>), the two Cairo passes
  (\<^verbatim>\<open>CairoDrawEachSubmap\<close>, \<^verbatim>\<open>Node::DrawAndPublish\<close>), the quantiser
  (\<^verbatim>\<open>Node::PublishOccupancyGrid\<close>) and the filter \<^verbatim>\<open>FilterOccupancyGrid\<close>.

  Conventions. \<^verbatim>\<open>uint32\<close> pixels are \<open>32 word\<close>, \<^verbatim>\<open>uint8_t\<close> bytes are
  \<open>8 word\<close>; \<^verbatim>\<open>int\<close> and \<^verbatim>\<open>int8_t\<close> values are \<open>int\<close> (no arithmetic of
  the program on them can leave their range, except where a definition says so);
  \<^verbatim>\<open>size_t\<close> is \<open>nat\<close> with the wrap-around at \<open>2 ^ 64\<close> written out.
  \<^verbatim>\<open>float\<close> and \<^verbatim>\<open>double\<close> values are \<open>real\<close>: rounding of the floating
  point operations is not modelled. A failed \<^verbatim>\<open>CHECK\<close>, an uncaught
  \<^verbatim>\<open>std::out_of_range\<close> or \<^verbatim>\<open>std::length_error\<close>, a read or write
  outside a buffer, an undefined conversion and an overflow of \<^verbatim>\<open>int\<close> are values
  of \<open>error\<close>.
\<close>

datatype error = CheckFailed | OutOfBounds | UndefinedConversion | SignedOverflow | LengthError

text \<open>A \<^verbatim>\<open>for\<close> loop over a range or a container, stopping at the first error.\<close>

fun foldM :: "('a \<Rightarrow> 's \<Rightarrow> error + 's) \<Rightarrow> 'a list \<Rightarrow> 's \<Rightarrow> error + 's" where
  "foldM f [] s = Inr s"
| "foldM f (x # xs) s = (case f x s of Inl e \<Rightarrow> Inl e | Inr s' \<Rightarrow> foldM f xs s')"

subsection \<open>Data\<close>

text \<open>
  \<^verbatim>\<open>SubmapId\<close> (\<^verbatim>\<open>cartographer/mapping/id.h\<close>) is the pair of
  \<^verbatim>\<open>trajectory_id\<close> and \<^verbatim>\<open>submap_index\<close>, compared as a tuple: the
  lexicographic order of pairs.
\<close>

type_synonym SubmapId = "int \<times> int"

text \<open>
  A Cairo image surface made by \<^verbatim>\<open>cairo_image_surface_create_for_data\<close>: the
  pixel words it was made for, its width, height and stride.
\<close>

record CairoSurface =
  surface_data :: "32 word list"
  surface_width :: int
  surface_height :: int
  surface_stride :: int

text \<open>
  \<^verbatim>\<open>struct SubmapState\<close>. The poses are \<^verbatim>\<open>Rigid3d\<close> values, a type of
  \<^verbatim>\<open>cartographer/transform/rigid_transform.h\<close>: the type parameter \<open>'p\<close>. A null
  \<^verbatim>\<open>surface\<close> is \<open>None\<close>.
\<close>

record 'p SubmapState =
  width :: int
  height :: int
  version :: int
  resolution :: real
  slice_pose :: 'p
  surface :: "CairoSurface option"
  cairo_data :: "32 word list"
  pose :: 'p
  metadata_version :: int

text \<open>
  What \<^verbatim>\<open>FetchSubmapTexture\<close> returns (\<^verbatim>\<open>cartographer_ros/submap.h\<close>), one
  entry of a \<^verbatim>\<open>SubmapList\<close> message with its pose already converted by
  \<^verbatim>\<open>ToRigid3d\<close>, and the message.
\<close>

record 'p SubmapTexture =
  texture_width :: int
  texture_height :: int
  texture_version :: int
  texture_resolution :: real
  texture_slice_pose :: 'p
  texture_intensity :: "8 word list"
  texture_alpha :: "8 word list"

record 'p SubmapEntry =
  trajectory_id :: int
  submap_index :: int
  submap_version :: int
  entry_pose :: 'p

record 'p SubmapList =
  list_frame_id :: string
  list_stamp :: nat
  submap :: "'p SubmapEntry list"

text \<open>
  The members \<^verbatim>\<open>resolution_\<close> and \<^verbatim>\<open>submaps_\<close> of \<^verbatim>\<open>Node\<close> (a
  name cannot end with an underscore here). \<^verbatim>\<open>submaps_\<close> is a \<^verbatim>\<open>std::map\<close>,
  kept as the list of its pairs in ascending order of the keys.
\<close>

record 'p Node =
  node_resolution :: real
  node_submaps :: "(SubmapId \<times> 'p SubmapState) list"

record OccupancyGrid =
  header_stamp :: nat
  header_frame_id :: string
  info_map_load_time :: nat
  info_resolution :: real
  info_width :: nat
  info_height :: nat
  origin_position :: "real \<times> real \<times> real"
  origin_orientation :: "real \<times> real \<times> real \<times> real"
  data :: "int list"

subsection \<open>Cairo's transformation matrix\<close>

text \<open>
  The part of a Cairo context the program uses: the current transformation matrix and the
  stack of \<^verbatim>\<open>cairo_save\<close>. \<^verbatim>\<open>cairo_scale\<close>, \<^verbatim>\<open>cairo_translate\<close> and
  \<^verbatim>\<open>cairo_transform\<close> apply the new transformation to user coordinates first,
  before the transformation so far.
\<close>

record cairo_matrix_t =
  xx :: real
  yx :: real
  xy :: real
  yy :: real
  x0 :: real
  y0 :: real

record cairo_t =
  ctm :: cairo_matrix_t
  saved :: "cairo_matrix_t list"

definition cairo_matrix_init :: "real \<Rightarrow> real \<Rightarrow> real \<Rightarrow> real \<Rightarrow> real \<Rightarrow> real \<Rightarrow> cairo_matrix_t" where
  "cairo_matrix_init a b c d e f = \<lparr> xx = a, yx = b, xy = c, yy = d, x0 = e, y0 = f \<rparr>"

definition cairo_matrix_multiply :: "cairo_matrix_t \<Rightarrow> cairo_matrix_t \<Rightarrow> cairo_matrix_t" where
  "cairo_matrix_multiply a b =
     \<lparr> xx = xx a * xx b + yx a * xy b,
       yx = xx a * yx b + yx a * yy b,
       xy = xy a * xx b + yy a * xy b,
       yy = xy a * yx b + yy a * yy b,
       x0 = x0 a * xx b + y0 a * xy b + x0 b,
       y0 = x0 a * yx b + y0 a * yy b + y0 b \<rparr>"

definition cairo_create :: cairo_t where
  "cairo_create = \<lparr> ctm = cairo_matrix_init 1 0 0 1 0 0, saved = [] \<rparr>"

definition cairo_scale :: "cairo_t \<Rightarrow> real \<Rightarrow> real \<Rightarrow> cairo_t" where
  "cairo_scale cr sx sy = cr\<lparr>ctm := cairo_matrix_multiply (cairo_matrix_init sx 0 0 sy 0 0) (ctm cr)\<rparr>"

definition cairo_translate :: "cairo_t \<Rightarrow> real \<Rightarrow> real \<Rightarrow> cairo_t" where
  "cairo_translate cr tx ty = cr\<lparr>ctm := cairo_matrix_multiply (cairo_matrix_init 1 0 0 1 tx ty) (ctm cr)\<rparr>"

definition cairo_transform :: "cairo_t \<Rightarrow> cairo_matrix_t \<Rightarrow> cairo_t" where
  "cairo_transform cr matrix = cr\<lparr>ctm := cairo_matrix_multiply matrix (ctm cr)\<rparr>"

definition cairo_save :: "cairo_t \<Rightarrow> cairo_t" where
  "cairo_save cr = cr\<lparr>saved := ctm cr # saved cr\<rparr>"

definition cairo_restore :: "cairo_t \<Rightarrow> cairo_t" where
  "cairo_restore cr = (case saved cr of [] \<Rightarrow> cr | m # ms \<Rightarrow> cr\<lparr>ctm := m, saved := ms\<rparr>)"

definition cairo_user_to_device :: "cairo_t \<Rightarrow> real \<times> real \<Rightarrow> real \<times> real" where
  "cairo_user_to_device cr p =
     (xx (ctm cr) * fst p + xy (ctm cr) * snd p + x0 (ctm cr),
      yx (ctm cr) * fst p + yy (ctm cr) * snd p + y0 (ctm cr))"

subsection \<open>What the node calls outside this file\<close>

text \<open>
  The collaborators, as parameters of the model:
  \<^item> \<open>FetchSubmapTexture\<close>: the service call, on the state \<open>'w\<close> of the world outside the
    node; \<open>None\<close> is the null pointer it returns on failure;
  \<^item> \<open>Rigid3d_times\<close>, \<open>Rigid3d_translation\<close> and \<open>Rigid3d_rotation\<close>: the product of two
    \<^verbatim>\<open>Rigid3d\<close>, and the components of the translation and of the rotation matrix of one;
  \<^item> \<open>SubmapState_new\<close>: the value \<^verbatim>\<open>SubmapState()\<close> constructs; the constructor
    leaves the texture fields indeterminate;
  \<^item> \<open>cairo_format_stride_for_width\<close> and \<open>cairo_surface_status_success\<close> (whether the
    status of a surface is \<^verbatim>\<open>CAIRO_STATUS_SUCCESS\<close>) for \<^verbatim>\<open>kCairoFormat\<close>;
  \<^item> \<open>cairo_image_surface_painted\<close>: the pixel words of the surface that
    \<^verbatim>\<open>cairo_image_surface_create\<close> makes for a width and a height, painted with the
    colour \<^verbatim>\<open>(0.5, 0, 0, 1)\<close>;
  \<^item> \<open>cairo_paint_surface\<close>: \<^verbatim>\<open>cairo_set_source_surface\<close> and
    \<^verbatim>\<open>cairo_paint\<close> of a submap's surface under a transformation matrix, on the
    pixel words of the canvas.
\<close>

record ('p, 'w) Collaborators =
  FetchSubmapTexture :: "SubmapId \<Rightarrow> 'w \<Rightarrow> 'p SubmapTexture option \<times> 'w"
  Rigid3d_times :: "'p \<Rightarrow> 'p \<Rightarrow> 'p"
  Rigid3d_translation :: "'p \<Rightarrow> nat \<Rightarrow> real"
  Rigid3d_rotation :: "'p \<Rightarrow> nat \<Rightarrow> nat \<Rightarrow> real"
  SubmapState_new :: "'p SubmapState"
  cairo_format_stride_for_width :: "int \<Rightarrow> int"
  cairo_surface_status_success :: "CairoSurface \<Rightarrow> bool"
  cairo_image_surface_painted :: "int \<Rightarrow> int \<Rightarrow> 32 word list"
  cairo_paint_surface :: "cairo_matrix_t \<Rightarrow> CairoSurface option \<Rightarrow> 32 word list \<Rightarrow> 32 word list"

subsection \<open>\<^verbatim>\<open>ToEigen\<close> and \<^verbatim>\<open>CairoDrawEachSubmap\<close>\<close>

text \<open>
  \<^verbatim>\<open>ToEigen(rigid3).matrix()\<close>: the homogeneous 4 by 4 matrix of the translation
  times the rotation, by row and column.
\<close>

definition ToEigen :: "('p, 'w) Collaborators \<Rightarrow> 'p \<Rightarrow> nat \<Rightarrow> nat \<Rightarrow> real" where
  "ToEigen ext rigid3 i j =
     (if i < 3 \<and> j < 3 then Rigid3d_rotation ext rigid3 i j
      else if i < 3 \<and> j = 3 then Rigid3d_translation ext rigid3 i
      else if i = 3 \<and> j = 3 then 1 else 0)"

text \<open>
  Lines 82 to 92: the context in which the callback runs for one submap, made from the
  context \<open>cr\<close> of the loop by \<^verbatim>\<open>cairo_save\<close>, \<^verbatim>\<open>cairo_transform\<close> with
  the matrix of the submap and \<^verbatim>\<open>cairo_scale\<close> with its resolution.
\<close>

definition submap_context :: "('p, 'w) Collaborators \<Rightarrow> cairo_t \<Rightarrow> 'p SubmapState \<Rightarrow> cairo_t" where
  "submap_context ext cr submap_state =
     (let homo = ToEigen ext (Rigid3d_times ext (pose submap_state) (slice_pose submap_state));
          cr1 = cairo_save cr;
          matrix = cairo_matrix_init (homo 1 0) (homo 0 0) (- homo 1 1) (- homo 0 1)
                     (homo 0 3) (- homo 1 3);
          cr2 = cairo_transform cr1 matrix;
          submap_resolution = resolution submap_state
      in cairo_scale cr2 submap_resolution submap_resolution)"

text \<open>
  The loop of lines 77 to 95 on the pairs of the map in ascending order. The callback
  works on a value of its own (the bounding box, or the canvas); \<^verbatim>\<open>return\<close> at a
  null surface leaves the loop and the function.
\<close>

fun draw_each ::
  "('p, 'w) Collaborators \<Rightarrow> (SubmapId \<times> 'p SubmapState) list \<Rightarrow> cairo_t \<Rightarrow>
   (cairo_t \<Rightarrow> 'p SubmapState \<Rightarrow> 'a \<Rightarrow> 'a) \<Rightarrow> 'a \<Rightarrow> 'a" where
  "draw_each ext [] cr draw_callback acc = acc"
| "draw_each ext (pair # rest) cr draw_callback acc =
     (let submap_state = snd pair in
      if surface submap_state = None then acc
      else
        let cr3 = submap_context ext cr submap_state;
            acc' = draw_callback cr3 submap_state acc;
            cr4 = cairo_restore cr3
        in draw_each ext rest cr4 draw_callback acc')"

definition CairoDrawEachSubmap ::
  "('p, 'w) Collaborators \<Rightarrow> real \<Rightarrow> (SubmapId \<times> 'p SubmapState) list \<Rightarrow> cairo_t \<Rightarrow>
   (cairo_t \<Rightarrow> 'p SubmapState \<Rightarrow> 'a \<Rightarrow> 'a) \<Rightarrow> 'a \<Rightarrow> 'a" where
  "CairoDrawEachSubmap ext scale submaps cr draw_callback acc =
     draw_each ext submaps (cairo_scale cr scale scale) draw_callback acc"

subsection \<open>The quantiser: \<^verbatim>\<open>Node::PublishOccupancyGrid\<close>\<close>

text \<open>
  \<^verbatim>\<open>::cartographer::common::RoundToInt\<close> is declared in
  \<^verbatim>\<open>cartographer/common/math.h\<close>, outside this file: it is \<^verbatim>\<open>std::lround\<close>,
  rounding to the nearest integer, halfway cases away from zero.
\<close>

definition RoundToInt :: "real \<Rightarrow> int" where
  "RoundToInt x = (if 0 \<le> x then \<lfloor>x + 1 / 2\<rfloor> else - \<lfloor>- x + 1 / 2\<rfloor>)"

text \<open>
  Lines 332 to 346, the body of the inner loop for one pixel: \<^verbatim>\<open>color\<close> and
  \<^verbatim>\<open>observed\<close> are the conversions of \<^verbatim>\<open>packed >> 16\<close> and
  \<^verbatim>\<open>packed >> 8\<close> to \<^verbatim>\<open>unsigned char\<close>; the two \<^verbatim>\<open>CHECK\<close>s abort.
\<close>

definition cell_value :: "32 word \<Rightarrow> error + int" where
  "cell_value packed =
     (let color = (ucast (drop_bit 16 packed) :: 8 word);
          observed = (ucast (drop_bit 8 packed) :: 8 word);
          val = (if observed = 0 then - 1
                 else RoundToInt ((1 - real (unat color) / 255) * 100))
      in if \<not> (- 1 \<le> val) then Inl CheckFailed
         else if \<not> (100 \<ge> val) then Inl CheckFailed
         else Inr (if val > 50 then 100 else if val \<noteq> - 1 then 0 else - 1))"

text \<open>
  \<^verbatim>\<open>pixel_data[y * size.x() + x]\<close>: a read through a raw pointer into the Cairo
  surface's buffer, given here as the list of its words. The index is an \<^verbatim>\<open>int\<close>.
\<close>

definition pixel_at :: "32 word list \<Rightarrow> int \<Rightarrow> error + 32 word" where
  "pixel_at pixel_data i =
     (if 0 \<le> i \<and> i < 2 ^ 31 \<and> nat i < length pixel_data then Inr (pixel_data ! nat i)
      else Inl OutOfBounds)"

definition push_cell :: "32 word list \<Rightarrow> int \<Rightarrow> int \<Rightarrow> int \<Rightarrow> int list \<Rightarrow> error + int list" where
  "push_cell pixel_data size_x y x cells =
     (case pixel_at pixel_data (y * size_x + x) of
        Inl e \<Rightarrow> Inl e
      | Inr packed \<Rightarrow>
          (case cell_value packed of
             Inl e \<Rightarrow> Inl e
           | Inr c \<Rightarrow> Inr (cells @ [c])))"

text \<open>
  The loops of lines 330 and 331: \<^verbatim>\<open>y\<close> from \<^verbatim>\<open>size.y() - 1\<close> down to 0,
  \<^verbatim>\<open>x\<close> from 0 up to \<^verbatim>\<open>size.x() - 1\<close>.
\<close>

definition grid_cells :: "32 word list \<Rightarrow> int \<times> int \<Rightarrow> error + int list" where
  "grid_cells pixel_data sz =
     foldM (\<lambda>y. foldM (push_cell pixel_data (fst sz) y) [0 .. fst sz - 1])
       (rev [0 .. snd sz - 1]) []"

text \<open>
  The result is the message handed to \<^verbatim>\<open>occupancy_grid_publisher_.publish\<close>.
  \<^verbatim>\<open>info.width\<close> and \<^verbatim>\<open>info.height\<close> are \<^verbatim>\<open>uint32\<close>.
  \<^verbatim>\<open>data.reserve(size.x() * size.y())\<close> multiplies two \<^verbatim>\<open>int\<close> and throws
  for a negative product, which is a huge \<^verbatim>\<open>size_t\<close>.
\<close>

definition PublishOccupancyGrid ::
  "'p Node \<Rightarrow> string \<Rightarrow> nat \<Rightarrow> real \<times> real \<Rightarrow> int \<times> int \<Rightarrow> 32 word list \<Rightarrow> error + OccupancyGrid" where
  "PublishOccupancyGrid node frame_id time origin sz pixel_data =
     (if \<not> (- (2 ^ 31) \<le> fst sz * snd sz \<and> fst sz * snd sz < 2 ^ 31) then Inl SignedOverflow
      else if fst sz * snd sz < 0 then Inl LengthError
      else
        (case grid_cells pixel_data sz of
           Inl e \<Rightarrow> Inl e
         | Inr cells \<Rightarrow>
             Inr \<lparr> header_stamp = time,
                   header_frame_id = frame_id,
                   info_map_load_time = time,
                   info_resolution = node_resolution node,
                   info_width = nat (fst sz mod 2 ^ 32),
                   info_height = nat (snd sz mod 2 ^ 32),
                   origin_position =
                     (- fst origin * node_resolution node,
                      (- real_of_int (snd sz) + snd origin) * node_resolution node, 0),
                   origin_orientation = (1, 0, 0, 0),
                   data = cells \<rparr>))"

subsection \<open>\<^verbatim>\<open>Node::DrawAndPublish\<close>\<close>

text \<open>
  \<^verbatim>\<open>Eigen::AlignedBox2f\<close>: the empty box has the largest \<^verbatim>\<open>float\<close> as its
  minimum and the lowest as its maximum in both coordinates.
\<close>

record AlignedBox2f =
  m_min :: "real \<times> real"
  m_max :: "real \<times> real"

definition FLT_MAX :: real where
  "FLT_MAX = 340282346638528859811704183484516925440"

definition AlignedBox2f_empty :: AlignedBox2f where
  "AlignedBox2f_empty = \<lparr> m_min = (FLT_MAX, FLT_MAX), m_max = (- FLT_MAX, - FLT_MAX) \<rparr>"

definition extend :: "AlignedBox2f \<Rightarrow> real \<times> real \<Rightarrow> AlignedBox2f" where
  "extend box p =
     \<lparr> m_min = (min (fst (m_min box)) (fst p), min (snd (m_min box)) (snd p)),
       m_max = (max (fst (m_max box)) (fst p), max (snd (m_max box)) (snd p)) \<rparr>"

definition sizes :: "AlignedBox2f \<Rightarrow> real \<times> real" where
  "sizes box = (fst (m_max box) - fst (m_min box), snd (m_max box) - snd (m_min box))"

definition update_bounding_box :: "cairo_t \<Rightarrow> real \<times> real \<Rightarrow> AlignedBox2f \<Rightarrow> AlignedBox2f" where
  "update_bounding_box cr p bounding_box = extend bounding_box (cairo_user_to_device cr p)"

text \<open>The callback of the first pass, lines 217 to 222.\<close>

definition bounding_box_callback :: "cairo_t \<Rightarrow> 'p SubmapState \<Rightarrow> AlignedBox2f \<Rightarrow> AlignedBox2f" where
  "bounding_box_callback cr submap_state bounding_box =
     update_bounding_box cr (real_of_int (width submap_state), real_of_int (height submap_state))
       (update_bounding_box cr (0, real_of_int (height submap_state))
         (update_bounding_box cr (real_of_int (width submap_state), 0)
           (update_bounding_box cr (0, 0) bounding_box)))"

text \<open>
  The conversion of a \<^verbatim>\<open>float\<close> to \<^verbatim>\<open>int\<close> when the \<^verbatim>\<open>Array2i\<close> is
  constructed: towards zero, and undefined when the result is not an \<^verbatim>\<open>int\<close>.
\<close>

definition float_to_int :: "real \<Rightarrow> error + int" where
  "float_to_int x =
     (let t = (if 0 \<le> x then \<lfloor>x\<rfloor> else \<lceil>x\<rceil>)
      in if - (2 ^ 31) \<le> t \<and> t < 2 ^ 31 then Inr t else Inl UndefinedConversion)"

definition DrawAndPublish ::
  "('p, 'w) Collaborators \<Rightarrow> 'p Node \<Rightarrow> string \<Rightarrow> nat \<Rightarrow> error + OccupancyGrid option" where
  "DrawAndPublish ext node frame_id time =
     (if node_submaps node = [] then Inr None
      else
        let bounding_box =
              CairoDrawEachSubmap ext (1 / node_resolution node) (node_submaps node) cairo_create
                bounding_box_callback AlignedBox2f_empty;
            kPaddingPixel = 5
        in case float_to_int (real_of_int \<lceil>fst (sizes bounding_box)\<rceil> + 2 * kPaddingPixel) of
             Inl e \<Rightarrow> Inl e
           | Inr size_x \<Rightarrow>
          (case float_to_int (real_of_int \<lceil>snd (sizes bounding_box)\<rceil> + 2 * kPaddingPixel) of
             Inl e \<Rightarrow> Inl e
           | Inr size_y \<Rightarrow>
               let origin = (- fst (m_min bounding_box) + kPaddingPixel,
                             - snd (m_min bounding_box) + kPaddingPixel);
                   painted = cairo_image_surface_painted ext size_x size_y;
                   cr = cairo_translate cairo_create (fst origin) (snd origin);
                   canvas =
                     CairoDrawEachSubmap ext (1 / node_resolution node) (node_submaps node) cr
                       (\<lambda>cr submap_state. cairo_paint_surface ext (ctm cr) (surface submap_state))
                       painted
               in (case PublishOccupancyGrid node frame_id time origin (size_x, size_y) canvas of
                     Inl e \<Rightarrow> Inl e
                   | Inr occupancy_grid \<Rightarrow> Inr (Some occupancy_grid))))"

subsection \<open>The cache: \<^verbatim>\<open>Node::HandleSubmapList\<close>\<close>

text \<open>
  \<^verbatim>\<open>submaps_[id]\<close> finds the state of \<^verbatim>\<open>id\<close>, inserting a newly constructed one
  when the map has none; the body of the loop then writes through the reference. Here the
  body reads with \<open>map_of\<close> and writes the state back at the place of its key.
\<close>

fun map_assign :: "'k::linorder \<Rightarrow> 'v \<Rightarrow> ('k \<times> 'v) list \<Rightarrow> ('k \<times> 'v) list" where
  "map_assign k v [] = [(k, v)]"
| "map_assign k v (p # ps) =
     (if k < fst p then (k, v) # p # ps
      else if k = fst p then (k, v) # ps
      else p # map_assign k v ps)"

definition SubmapState_init :: "('p, 'w) Collaborators \<Rightarrow> 'p SubmapState" where
  "SubmapState_init ext = (SubmapState_new ext)\<lparr>surface := None, cairo_data := [], metadata_version := - 1\<rparr>"

text \<open>
  Lines 176 to 184. \<^verbatim>\<open>at\<close> throws when the index is not below the size. The
  operands of the shifts are promoted to 32 bits; the pushed value is a
  \<^verbatim>\<open>uint32_t\<close>.
\<close>

definition vector_at :: "'a list \<Rightarrow> nat \<Rightarrow> error + 'a" where
  "vector_at v i = (if i < length v then Inr (v ! i) else Inl OutOfBounds)"

definition pack_pixel :: "8 word \<Rightarrow> 8 word \<Rightarrow> 32 word" where
  "pack_pixel intensity alpha =
     (let observed = (if intensity = 0 \<and> alpha = 0 then 0 else 255 :: 8 word)
      in push_bit 24 (ucast alpha) OR push_bit 16 (ucast intensity) OR push_bit 8 (ucast observed) OR 0)"

definition push_pixel :: "8 word list \<Rightarrow> 8 word list \<Rightarrow> nat \<Rightarrow> 32 word list \<Rightarrow> error + 32 word list" where
  "push_pixel intensities alphas i pixels =
     (case vector_at intensities i of
        Inl e \<Rightarrow> Inl e
      | Inr intensity \<Rightarrow>
          (case vector_at alphas i of
             Inl e \<Rightarrow> Inl e
           | Inr alpha \<Rightarrow> Inr (pixels @ [pack_pixel intensity alpha])))"

definition fill_cairo_data :: "8 word list \<Rightarrow> 8 word list \<Rightarrow> error + 32 word list" where
  "fill_cairo_data intensities alphas =
     foldM (push_pixel intensities alphas) [0 ..< length intensities] []"

text \<open>
  The body of the loop of lines 150 to 195 for one entry of the message. The state of the
  loop is the map, the world outside and the identities \<^verbatim>\<open>FetchSubmapTexture\<close> was
  called with so far, in the order of the calls.
\<close>

definition handle_submap ::
  "('p, 'w) Collaborators \<Rightarrow> 'p SubmapEntry \<Rightarrow>
   (SubmapId \<times> 'p SubmapState) list \<times> 'w \<times> SubmapId list \<Rightarrow>
   error + (SubmapId \<times> 'p SubmapState) list \<times> 'w \<times> SubmapId list" where
  "handle_submap ext submap_msg st =
     (let submaps = fst st; world = fst (snd st); fetched = snd (snd st);
          id = (trajectory_id submap_msg, submap_index submap_msg);
          found = (case map_of submaps id of None \<Rightarrow> SubmapState_init ext | Some s \<Rightarrow> s);
          s1 = found\<lparr>pose := entry_pose submap_msg, metadata_version := submap_version submap_msg\<rparr>
      in if surface s1 \<noteq> None \<and> version s1 = submap_version submap_msg
         then Inr (map_assign id s1 submaps, world, fetched)
         else
           (case FetchSubmapTexture ext id world of
              (None, world') \<Rightarrow> Inr (map_assign id s1 submaps, world', fetched @ [id])
            | (Some fetched_texture, world') \<Rightarrow>
                let s2 = s1\<lparr>width := texture_width fetched_texture,
                            height := texture_height fetched_texture,
                            version := texture_version fetched_texture,
                            slice_pose := texture_slice_pose fetched_texture,
                            resolution := texture_resolution fetched_texture\<rparr>;
                    expected_stride = 4 * width s2
                in if expected_stride \<noteq> cairo_format_stride_for_width ext (width s2)
                   then Inl CheckFailed
                   else
                     (case fill_cairo_data (texture_intensity fetched_texture)
                             (texture_alpha fetched_texture) of
                        Inl e \<Rightarrow> Inl e
                      | Inr pixels \<Rightarrow>
                          let made = \<lparr> surface_data = pixels, surface_width = width s2,
                                       surface_height = height s2,
                                       surface_stride = expected_stride \<rparr>;
                              s3 = s2\<lparr>cairo_data := pixels, surface := Some made\<rparr>
                          in if \<not> cairo_surface_status_success ext made then Inl CheckFailed
                             else Inr (map_assign id s3 submaps, world', fetched @ [id]))))"

definition handle_submaps ::
  "('p, 'w) Collaborators \<Rightarrow> 'p SubmapEntry list \<Rightarrow>
   (SubmapId \<times> 'p SubmapState) list \<times> 'w \<times> SubmapId list \<Rightarrow>
   error + (SubmapId \<times> 'p SubmapState) list \<times> 'w \<times> SubmapId list" where
  "handle_submaps ext entries st = foldM (handle_submap ext) entries st"

text \<open>
  \<^verbatim>\<open>Node::HandleSubmapList\<close>, with the number of subscribers of the publisher as an
  argument. It returns the node, the world outside, the identities fetched and the message
  published, if one was.
\<close>

definition HandleSubmapList ::
  "('p, 'w) Collaborators \<Rightarrow> nat \<Rightarrow> 'p SubmapList \<Rightarrow> 'p Node \<Rightarrow> 'w \<Rightarrow>
   error + 'p Node \<times> 'w \<times> SubmapId list \<times> OccupancyGrid option" where
  "HandleSubmapList ext num_subscribers msg node world =
     (if num_subscribers = 0 then Inr (node, world, [], None)
      else
        (case handle_submaps ext (submap msg) (node_submaps node, world, []) of
           Inl e \<Rightarrow> Inl e
         | Inr st \<Rightarrow>
             let node' = node\<lparr>node_submaps := fst st\<rparr>
             in (case DrawAndPublish ext node' (list_frame_id msg) (list_stamp msg) of
                   Inl e \<Rightarrow> Inl e
                 | Inr published \<Rightarrow> Inr (node', fst (snd st), snd (snd st), published))))"

subsection \<open>\<^verbatim>\<open>FilterOccupancyGrid\<close>\<close>

text \<open>
  \<^verbatim>\<open>occupancy_grid.data[k]\<close> on the \<^verbatim>\<open>std::vector\<close> of the cells; an index
  that is not below the size is outside the buffer.
\<close>

definition data_at :: "int list \<Rightarrow> nat \<Rightarrow> error + int" where
  "data_at cells k = (if k < length cells then Inr (cells ! k) else Inl OutOfBounds)"

text \<open>
  The bounds of the two inner loops, lines 282 to 286: the first index is
  \<^verbatim>\<open>y > 0 ? y - 2 : 0\<close> in \<^verbatim>\<open>size_t\<close> (so \<^verbatim>\<open>y - 2\<close> wraps around for
  \<^verbatim>\<open>y = 1\<close>), the last is \<^verbatim>\<open>y + 2 < n ? y + 2 : n\<close>, and the loop runs while
  the index is at most the last.
\<close>

definition window_first :: "nat \<Rightarrow> nat" where
  "window_first y = (if y > 0 then (y + 2 ^ 64 - 2) mod 2 ^ 64 else 0)"

definition window_last :: "nat \<Rightarrow> nat \<Rightarrow> nat" where
  "window_last y n = (if y + 2 < n then y + 2 else n)"

definition window_range :: "nat \<Rightarrow> nat \<Rightarrow> nat list" where
  "window_range y n = [window_first y ..< window_last y n + 1]"

text \<open>Lines 288 to 292 for one cell of the window; the state is \<open>(count, no_occ)\<close>.\<close>

definition scan_cell ::
  "int list \<Rightarrow> nat \<Rightarrow> real \<Rightarrow> nat \<Rightarrow> nat \<Rightarrow> nat \<times> nat \<Rightarrow> error + nat \<times> nat" where
  "scan_cell cells w occupancy_threshold i j cn =
     (case data_at cells (i * w + j) of
        Inl e \<Rightarrow> Inl e
      | Inr v \<Rightarrow>
          Inr (fst cn + 1,
               if v > 0 \<and> real_of_int v < occupancy_threshold then snd cn + 1 else snd cn))"

definition scan_window ::
  "int list \<Rightarrow> nat \<Rightarrow> nat \<Rightarrow> real \<Rightarrow> nat \<Rightarrow> nat \<Rightarrow> error + nat \<times> nat" where
  "scan_window cells w h occupancy_threshold y x =
     foldM (\<lambda>i. foldM (scan_cell cells w occupancy_threshold i) (window_range x w))
       (window_range y h) (0, 0)"

text \<open>The body of the loop over \<^verbatim>\<open>x\<close>, lines 279 to 302.\<close>

definition filter_cell ::
  "nat \<Rightarrow> nat \<Rightarrow> real \<Rightarrow> nat \<Rightarrow> nat \<Rightarrow> int list \<Rightarrow> error + int list" where
  "filter_cell w h occupancy_threshold y x cells =
     (case data_at cells (y * w + x) of
        Inl e \<Rightarrow> Inl e
      | Inr c \<Rightarrow>
          if c < 0 \<or> real_of_int c > occupancy_threshold then
            (case scan_window cells w h occupancy_threshold y x of
               Inl e \<Rightarrow> Inl e
             | Inr cn \<Rightarrow>
                 if snd cn > fst cn div 2 then Inr (cells[y * w + x := 0])
                 else Inr (cells[y * w + x := (if c > 0 then 100 else - 1)]))
          else Inr (cells[y * w + x := 0]))"

definition FilterOccupancyGrid :: "OccupancyGrid \<Rightarrow> real \<Rightarrow> error + OccupancyGrid" where
  "FilterOccupancyGrid occupancy_grid occupancy_threshold =
     (case foldM (\<lambda>y. foldM (filter_cell (info_width occupancy_grid) (info_height occupancy_grid)
                               occupancy_threshold y)
                        [0 ..< info_width occupancy_grid])
             [0 ..< info_height occupancy_grid] (data occupancy_grid) of
        Inl e \<Rightarrow> Inl e
      | Inr cells \<Rightarrow> Inr (occupancy_grid\<lparr>data := cells\<rparr>))"

subsection \<open>Concrete collaborators and inputs\<close>

text \<open>
  Collaborators for concrete runs of the model: poses are natural numbers, the world outside
  is a counter, Cairo accepts every width and surface, and the rasteriser leaves the canvas
  as it is. The fetch is the argument.
\<close>

definition example_collaborators ::
  "(SubmapId \<Rightarrow> nat \<Rightarrow> nat SubmapTexture option \<times> nat) \<Rightarrow> (nat, nat) Collaborators" where
  "example_collaborators fetch =
     \<lparr> FetchSubmapTexture = fetch,
       Rigid3d_times = (\<lambda>a b. a + b),
       Rigid3d_translation = (\<lambda>p i. 0),
       Rigid3d_rotation = (\<lambda>p i j. if i = j then 1 else 0),
       SubmapState_new =
         \<lparr> width = 0, height = 0, version = 0, resolution = 0, slice_pose = 0, surface = None,
           cairo_data = [], pose = 0, metadata_version = - 1 \<rparr>,
       cairo_format_stride_for_width = (\<lambda>w. 4 * w),
       cairo_surface_status_success = (\<lambda>s. True),
       cairo_image_surface_painted = (\<lambda>w h. replicate (nat (w * h)) 0xFF800000),
       cairo_paint_surface = (\<lambda>m s canvas. canvas) \<rparr>"

text \<open>A texture of one observed, free pixel with a given version, and a cached submap made
  from it.\<close>

definition example_texture :: "int \<Rightarrow> nat SubmapTexture" where
  "example_texture v =
     \<lparr> texture_width = 1, texture_height = 1, texture_version = v, texture_resolution = 1 / 20,
       texture_slice_pose = 0, texture_intensity = [0], texture_alpha = [255] \<rparr>"

definition example_state :: "int \<Rightarrow> nat \<Rightarrow> int \<Rightarrow> nat SubmapState" where
  "example_state v p mv =
     \<lparr> width = 1, height = 1, version = v, resolution = 1 / 20, slice_pose = 0,
       surface = Some \<lparr> surface_data = [0xFF00FF00], surface_width = 1, surface_height = 1,
                        surface_stride = 4 \<rparr>,
       cairo_data = [0xFF00FF00], pose = p, metadata_version = mv \<rparr>"

text \<open>A submap that was mentioned in a message and never fetched.\<close>

definition example_unfetched :: "nat \<Rightarrow> int \<Rightarrow> nat SubmapState" where
  "example_unfetched p mv =
     \<lparr> width = 0, height = 0, version = 0, resolution = 0, slice_pose = 0, surface = None,
       cairo_data = [], pose = p, metadata_version = mv \<rparr>"

definition example_entry :: "int \<Rightarrow> int \<Rightarrow> nat \<Rightarrow> nat SubmapEntry" where
  "example_entry index v p =
     \<lparr> trajectory_id = 0, submap_index = index, submap_version = v, entry_pose = p \<rparr>"

text \<open>An occupancy grid with a given width, height and cells.\<close>

definition example_grid :: "nat \<Rightarrow> nat \<Rightarrow> int list \<Rightarrow> OccupancyGrid" where
  "example_grid w h cells =
     \<lparr> header_stamp = 0, header_frame_id = ''map'', info_map_load_time = 0,
       info_resolution = 1 / 20, info_width = w, info_height = h, origin_position = (0, 0, 0),
       origin_orientation = (1, 0, 0, 0), data = cells \<rparr>"

section \<open>Properties\<close>

subsection \<open>Loops\<close>

lemma foldM_append:
  "foldM f (xs @ ys) s = (case foldM f xs s of Inl e \<Rightarrow> Inl e | Inr s' \<Rightarrow> foldM f ys s')"
  by (induction xs arbitrary: s) (auto split: sum.splits)

lemma upto_map_int: "[0 .. int n - 1] = map int [0 ..< n]"
proof (induction n)
  case 0
  show ?case by simp
next
  case (Suc n)
  have "[0 .. int (Suc n) - 1] = [0 .. int n - 1] @ [int n]"
    using upto_rec2 [of 0 "int n"] by simp
  then show ?case using Suc by simp
qed

lemma foldM_push:
  assumes "\<And>x acc. x \<in> set xs \<Longrightarrow> f x acc = Inr (acc @ g x)"
  shows "foldM f xs acc = Inr (acc @ concat (map g xs))"
  using assms by (induction xs arbitrary: acc) simp_all

lemma nth_concat_uniform:
  assumes "\<And>ys. ys \<in> set yss \<Longrightarrow> length ys = w" and "r < length yss" and "c < w"
  shows "concat yss ! (r * w + c) = yss ! r ! c"
  using assms
proof (induction yss arbitrary: r)
  case Nil
  then show ?case by simp
next
  case (Cons ys yss)
  show ?case
  proof (cases r)
    case 0
    then show ?thesis using Cons.prems by (simp add: nth_append)
  next
    case (Suc r')
    have "concat (ys # yss) ! (r * w + c) = concat yss ! (r' * w + c)"
      using Cons.prems(1) [of ys] Suc by (simp add: nth_append)
    also have "\<dots> = yss ! r' ! c"
      using Cons.prems Suc by (intro Cons.IH) auto
    finally show ?thesis using Suc by simp
  qed
qed

lemma length_concat_uniform:
  assumes "\<And>ys. ys \<in> set yss \<Longrightarrow> length ys = w"
  shows "length (concat yss) = length yss * w"
  using assms by (induction yss) simp_all

subsection \<open>The quantiser\<close>

lemma unat_byte_16: "unat (ucast (drop_bit 16 (p :: 32 word)) :: 8 word) = (unat p div 2 ^ 16) mod 256"
  by (simp add: unsigned_ucast_eq unsigned_drop_bit_eq take_bit_eq_mod drop_bit_eq_div unat_div)

lemma unat_byte_8: "unat (ucast (drop_bit 8 (p :: 32 word)) :: 8 word) = (unat p div 2 ^ 8) mod 256"
  by (simp add: unsigned_ucast_eq unsigned_drop_bit_eq take_bit_eq_mod drop_bit_eq_div unat_div)

lemma RoundToInt_round: "0 \<le> x \<Longrightarrow> RoundToInt x = round x"
  by (simp add: RoundToInt_def round_def)

lemma percent_range:
  assumes "n \<le> 255"
  shows "0 \<le> (1 - real n / 255) * 100" and "(1 - real n / 255) * 100 \<le> 100"
  using assms by simp_all

lemma RoundToInt_percent_bounds:
  assumes "n \<le> 255"
  shows "0 \<le> RoundToInt ((1 - real n / 255) * 100)" and "RoundToInt ((1 - real n / 255) * 100) \<le> 100"
proof -
  let ?x = "(1 - real n / 255) * 100"
  have x: "0 \<le> ?x" "?x \<le> 100" using percent_range [OF assms] by simp_all
  have "RoundToInt ?x = \<lfloor>?x + 1 / 2\<rfloor>" using x by (simp add: RoundToInt_def)
  moreover have "0 \<le> \<lfloor>?x + 1 / 2\<rfloor>" using x by (simp add: zero_le_floor)
  moreover have "\<lfloor>?x + 1 / 2\<rfloor> \<le> 100" using x by (simp add: floor_le_iff)
  ultimately show "0 \<le> RoundToInt ?x" and "RoundToInt ?x \<le> 100" by simp_all
qed

lemma byte_le: "unat (b :: 8 word) \<le> 255"
  using unsigned_less [of b, where ?'a = nat] by simp

lemma cell_value_eq:
  "cell_value packed =
     Inr (if (ucast (drop_bit 8 packed) :: 8 word) = 0 then - 1
          else if RoundToInt ((1 - real (unat (ucast (drop_bit 16 packed) :: 8 word)) / 255) * 100) > 50
          then 100 else 0)"
  using RoundToInt_percent_bounds [OF byte_le, of "ucast (drop_bit 16 packed)"]
  by (auto simp: cell_value_def Let_def)

text \<open>
  The exact value \<open>(1 - color / 255) * 100\<close> is never halfway between two integers: it
  stays at least \<open>1 / 510\<close> away from every \<open>n + 1 / 2\<close>. The rounding error of
  the \<^verbatim>\<open>double\<close> computation is far below that, so rounding the exact value gives
  what \<^verbatim>\<open>RoundToInt\<close> gives on the \<^verbatim>\<open>double\<close>.
\<close>

lemma percent_never_halfway:
  "1 / 510 \<le> \<bar>(1 - real color / 255) * 100 - (real_of_int n + 1 / 2)\<bar>"
proof -
  let ?k = "(255 - int color) * 200 - 255 * (2 * n + 1)"
  have "odd ?k" by simp
  then have "?k \<noteq> 0" by (metis even_zero)
  then have "1 \<le> \<bar>?k\<bar>" by simp
  then have k1: "1 \<le> \<bar>real_of_int ?k\<bar>" by (metis of_int_abs of_int_1_le_iff)
  have e: "(1 - real color / 255) * 100 - (real_of_int n + 1 / 2) = real_of_int ?k / 510"
    by (simp add: field_simps)
  have "1 / 510 \<le> \<bar>real_of_int ?k\<bar> / 510"
    using k1 by (intro divide_right_mono) simp_all
  also have "\<dots> = \<bar>real_of_int ?k / 510\<bar>" by simp
  finally show ?thesis unfolding e .
qed

text \<open>
  For every pixel word, the cell the quantiser writes is \<open>- 1\<close> when the observed
  byte (bits 8 to 15) is 0, whatever the colour byte; otherwise, with
  \<open>probabilityPercent = round ((1 - color / 255) * 100)\<close> for the colour byte (bits 16 to
  23), it is 100 when \<open>probabilityPercent > 50\<close> and 0 when not. Neither
  \<^verbatim>\<open>CHECK\<close> can fail.
\<close>

lemma cell_value_round:
  "cell_value packed =
     Inr (if (unat packed div 2 ^ 8) mod 256 = 0 then - 1
          else if round ((1 - real ((unat packed div 2 ^ 16) mod 256) / 255) * 100) > 50
          then 100 else 0)"
proof -
  have o: "((ucast (drop_bit 8 packed) :: 8 word) = 0) = ((unat packed div 2 ^ 8) mod 256 = 0)"
    using unat_byte_8 [of packed] by (metis unat_eq_0)
  have r: "RoundToInt ((1 - real (unat (ucast (drop_bit 16 packed) :: 8 word)) / 255) * 100)
      = round ((1 - real ((unat packed div 2 ^ 16) mod 256) / 255) * 100)"
    using percent_range(1) [OF byte_le, of "ucast (drop_bit 16 packed)"]
    by (simp add: RoundToInt_round unat_byte_16)
  show ?thesis unfolding cell_value_eq o r ..
qed

text \<open>
  The boundary: colour 127 gives 50 percent and the cell 0, colour 126 gives 51 percent and
  the cell 100, and a pixel with observed byte 0 gives \<open>- 1\<close> even with colour 0.
\<close>

lemma cell_value_boundary:
  "cell_value 0xFF7FFF00 = Inr 0 \<and> round ((1 - real 127 / 255) * 100) = 50
   \<and> cell_value 0xFF7EFF00 = Inr 100 \<and> round ((1 - real 126 / 255) * 100) = 51
   \<and> cell_value 0xFF0000FF = Inr (- 1)"
  using cell_value_round [of "0xFF7FFF00"] cell_value_round [of "0xFF7EFF00"]
    cell_value_round [of "0xFF0000FF"]
  by (simp add: round_def)

lemma cell_value_projr: "cell_value p = Inr (projr (cell_value p))"
  by (subst (2) cell_value_eq, subst cell_value_eq) simp

lemma push_cell_ok:
  assumes "0 \<le> y * sx + x" and "y * sx + x < 2 ^ 31" and "nat (y * sx + x) < length pd"
  shows "push_cell pd sx y x acc = Inr (acc @ [projr (cell_value (pd ! nat (y * sx + x)))])"
  using assms cell_value_projr [of "pd ! nat (y * sx + x)"]
  by (auto simp: push_cell_def pixel_at_def split: sum.splits)

lemma index_in_range:
  fixes W H :: nat
  assumes "r < H" and "c < W"
  shows "r * W + c < W * H"
proof -
  have "r * W + c < r * W + W" using assms by simp
  also have "\<dots> = (r + 1) * W" by simp
  also have "\<dots> \<le> H * W" using assms by (intro mult_le_mono1) simp
  finally show ?thesis by (simp add: mult.commute)
qed

lemma grid_cells_eq:
  fixes W H :: nat
  assumes "length pd = W * H" and "W * H < 2 ^ 31"
  shows "grid_cells pd (int W, int H) =
     Inr (concat (map (\<lambda>y. map (\<lambda>x. projr (cell_value (pd ! (y * W + x)))) [0 ..< W]) (rev [0 ..< H])))"
proof -
  have row: "foldM (push_cell pd (int W) (int y)) (map int [0 ..< W]) acc =
      Inr (acc @ map (\<lambda>x. projr (cell_value (pd ! (y * W + x)))) [0 ..< W])" if "y < H" for y acc
  proof -
    have "foldM (push_cell pd (int W) (int y)) (map int [0 ..< W]) acc =
        Inr (acc @ concat (map (\<lambda>x. [projr (cell_value (pd ! nat (int y * int W + x)))]) (map int [0 ..< W])))"
    proof (rule foldM_push)
      fix x acc' assume "x \<in> set (map int [0 ..< W])"
      then obtain c where c: "x = int c" "c < W" by auto
      have lt: "y * W + c < W * H" using index_in_range [OF that c(2)] .
      have n: "nat (int y * int W + int c) = y * W + c"
        by (simp add: nat_add_distrib nat_mult_distrib)
      have "y * W + c < 2 ^ 31" using lt assms(2) by simp
      then have "int (y * W + c) < 2 ^ 31" by (simp only: of_nat_less_numeral_power_cancel_iff)
      then have b: "int y * int W + int c < 2 ^ 31" by simp
      have "push_cell pd (int W) (int y) (int c) acc' =
          Inr (acc' @ [projr (cell_value (pd ! nat (int y * int W + int c)))])"
      proof (rule push_cell_ok)
        show "0 \<le> int y * int W + int c" by simp
        show "int y * int W + int c < 2 ^ 31" by (rule b)
        show "nat (int y * int W + int c) < length pd" unfolding n using lt assms(1) by simp
      qed
      then show "push_cell pd (int W) (int y) x acc' =
          Inr (acc' @ [projr (cell_value (pd ! nat (int y * int W + x)))])"
        unfolding c(1) .
    qed
    also have "concat (map (\<lambda>x. [projr (cell_value (pd ! nat (int y * int W + x)))]) (map int [0 ..< W]))
        = map (\<lambda>x. projr (cell_value (pd ! (y * W + x)))) [0 ..< W]"
      by (simp add: comp_def nat_add_distrib nat_mult_distrib)
    finally show ?thesis .
  qed
  have "grid_cells pd (int W, int H) =
      foldM (\<lambda>y. foldM (push_cell pd (int W) y) (map int [0 ..< W])) (map int (rev [0 ..< H])) []"
    by (simp add: grid_cells_def upto_map_int rev_map)
  also have "\<dots> = Inr ([] @ concat (map (\<lambda>y. map (\<lambda>x. projr (cell_value (pd ! (nat y * W + x)))) [0 ..< W])
      (map int (rev [0 ..< H]))))"
  proof (rule foldM_push)
    fix y acc assume "y \<in> set (map int (rev [0 ..< H]))"
    then obtain r where r: "y = int r" "r < H" by auto
    show "foldM (push_cell pd (int W) y) (map int [0 ..< W]) acc =
        Inr (acc @ map (\<lambda>x. projr (cell_value (pd ! (nat y * W + x)))) [0 ..< W])"
      unfolding r(1) using row [OF r(2)] by simp
  qed
  finally show ?thesis by (simp add: comp_def)
qed

text \<open>
  The grid that \<^verbatim>\<open>Node::PublishOccupancyGrid\<close> returns, and the place of a pixel
  in its cells.
\<close>

lemma PublishOccupancyGrid_cells:
  fixes W H :: nat
  assumes "W < 2 ^ 31" and "H < 2 ^ 31" and "W * H < 2 ^ 31" and "length pixel_data = W * H"
  shows "PublishOccupancyGrid node frame_id time origin (int W, int H) pixel_data =
    Inr \<lparr> header_stamp = time, header_frame_id = frame_id, info_map_load_time = time,
      info_resolution = node_resolution node, info_width = W, info_height = H,
      origin_position = (- fst origin * node_resolution node,
                         (- real H + snd origin) * node_resolution node, 0),
      origin_orientation = (1, 0, 0, 0),
      data = concat (map (\<lambda>y. map (\<lambda>x. projr (cell_value (pixel_data ! (y * W + x)))) [0 ..< W])
                      (rev [0 ..< H])) \<rparr>"
proof -
  let ?row = "\<lambda>y. map (\<lambda>x. projr (cell_value (pixel_data ! (y * W + x)))) [0 ..< W]"
  let ?rows = "map ?row (rev [0 ..< H])"
  have cells: "grid_cells pixel_data (int W, int H) = Inr (concat ?rows)"
    using grid_cells_eq [OF assms(4) assms(3)] .
  have u32: "nat (int n mod 2 ^ 32) = n" if "n < 2 ^ 31" for n :: nat
  proof -
    have "n < 2 ^ 32" using that by simp
    then have "int n < 2 ^ 32" by (simp only: of_nat_less_numeral_power_cancel_iff)
    then show ?thesis by simp
  qed
  have w: "nat (int W mod 4294967296) = W" using u32 [OF assms(1)] by simp
  have h: "nat (int H mod 4294967296) = H" using u32 [OF assms(2)] by simp
  have "int (W * H) < 2 ^ 31"
    using assms(3) by (simp only: of_nat_less_numeral_power_cancel_iff)
  then have "int W * int H < 2147483648" by simp
  moreover have "0 \<le> int W * int H" by simp
  ultimately have prod: "int W * int H < 2147483648" "\<not> int W * int H < 0"
    "- 2147483648 \<le> int W * int H"
    by linarith+
  show ?thesis
    by (cases origin) (simp add: PublishOccupancyGrid_def cells w h prod)
qed

lemma grid_rows_nth:
  fixes W H :: nat
  assumes "y < H" and "x < W"
  shows "concat (map (\<lambda>y. map (\<lambda>x. f (pixel_data ! (y * W + x))) [0 ..< W]) (rev [0 ..< H]))
      ! ((H - 1 - y) * W + x) = f (pixel_data ! (y * W + x))"
proof -
  let ?row = "\<lambda>y. map (\<lambda>x. f (pixel_data ! (y * W + x))) [0 ..< W]"
  let ?rows = "map ?row (rev [0 ..< H])"
  have uni: "\<And>ys. ys \<in> set ?rows \<Longrightarrow> length ys = W" by auto
  have r: "H - 1 - y < H" using assms by simp
  have "concat ?rows ! ((H - 1 - y) * W + x) = ?rows ! (H - 1 - y) ! x"
    using assms r by (intro nth_concat_uniform [OF uni]) simp_all
  also have "?rows ! (H - 1 - y) = ?row (H - 1 - (H - 1 - y))"
    using r by (simp add: rev_nth)
  also have "H - 1 - (H - 1 - y) = y" using assms by simp
  finally show ?thesis using assms by simp
qed

text \<open>
  C1. For a canvas of \<open>W\<close> by \<open>H\<close> pixels, \<^verbatim>\<open>Node::PublishOccupancyGrid\<close>
  returns a grid of \<open>W * H\<close> cells in which the cell of every pixel of the canvas (the
  pixel \<open>x\<close> of canvas row \<open>y\<close> gives the cell \<open>x\<close> of grid row \<open>H - 1 - y\<close>) is
  \<open>- 1\<close> when the observed byte (bits 8 to 15) of the pixel is 0, whatever the colour
  byte; otherwise, with \<open>probabilityPercent = round ((1 - color / 255) * 100)\<close> for the
  colour byte (bits 16 to 23), it is 100 when \<open>probabilityPercent > 50\<close> and 0 when not.
  Neither \<^verbatim>\<open>CHECK\<close> fails.
\<close>

theorem PublishOccupancyGrid_quantises:
  fixes W H :: nat
  assumes "W < 2 ^ 31" and "H < 2 ^ 31" and "W * H < 2 ^ 31" and "length pixel_data = W * H"
  shows "\<exists>g. PublishOccupancyGrid node frame_id time origin (int W, int H) pixel_data = Inr g
    \<and> length (data g) = W * H
    \<and> (\<forall>y x. y < H \<and> x < W \<longrightarrow>
          data g ! ((H - 1 - y) * W + x) =
            (if (unat (pixel_data ! (y * W + x)) div 2 ^ 8) mod 256 = 0 then - 1
             else if round ((1 - real ((unat (pixel_data ! (y * W + x)) div 2 ^ 16) mod 256) / 255) * 100) > 50
             then 100 else 0))"
proof -
  let ?rows = "map (\<lambda>y. map (\<lambda>x. projr (cell_value (pixel_data ! (y * W + x)))) [0 ..< W]) (rev [0 ..< H])"
  have uni: "\<And>ys. ys \<in> set ?rows \<Longrightarrow> length ys = W" by auto
  have len: "length (concat ?rows) = W * H"
    using length_concat_uniform [of ?rows W, OF uni] by (simp add: mult.commute)
  have nth: "concat ?rows ! ((H - 1 - y) * W + x) =
            (if (unat (pixel_data ! (y * W + x)) div 2 ^ 8) mod 256 = 0 then - 1
             else if round ((1 - real ((unat (pixel_data ! (y * W + x)) div 2 ^ 16) mod 256) / 255) * 100) > 50
             then 100 else 0)"
    if "y < H" and "x < W" for y x
    unfolding grid_rows_nth [OF that, of "\<lambda>p. projr (cell_value p)" pixel_data]
    unfolding cell_value_round by simp
  obtain g where pub: "PublishOccupancyGrid node frame_id time origin (int W, int H) pixel_data = Inr g"
    and d: "data g = concat ?rows"
    using PublishOccupancyGrid_cells [OF assms, of node frame_id time origin] by simp
  have "\<forall>y x. y < H \<and> x < W \<longrightarrow>
          data g ! ((H - 1 - y) * W + x) =
            (if (unat (pixel_data ! (y * W + x)) div 2 ^ 8) mod 256 = 0 then - 1
             else if round ((1 - real ((unat (pixel_data ! (y * W + x)) div 2 ^ 16) mod 256) / 255) * 100) > 50
             then 100 else 0)"
    unfolding d using nth by blast
  moreover have "length (data g) = W * H" unfolding d by (rule len)
  ultimately show ?thesis using pub by blast
qed

text \<open>
  A canvas of one column and three rows: colour 127 gives 50 percent and the cell 0, colour
  126 gives 51 percent and the cell 100, and the pixel with observed byte 0 gives \<open>- 1\<close>
  even with colour 0.
\<close>

theorem PublishOccupancyGrid_quantises_witness:
  "\<exists>g. PublishOccupancyGrid (\<lparr>node_resolution = 1 / 20, node_submaps = []\<rparr> :: unit Node)
          ''map'' 7 (5, 6) (1, 3) [0xFF7FFF00, 0xFF7EFF00, 0xFF0000FF] = Inr g
     \<and> data g = [- 1, 100, 0]
     \<and> round ((1 - real 127 / 255) * 100) = 50 \<and> round ((1 - real 126 / 255) * 100) = 51"
proof -
  let ?px = "[0xFF7FFF00, 0xFF7EFF00, 0xFF0000FF] :: 32 word list"
  have a: "(1::nat) < 2 ^ 31" "(3::nat) < 2 ^ 31" "(1::nat) * 3 < 2 ^ 31" "length ?px = 1 * 3"
    by simp_all
  obtain g where g: "PublishOccupancyGrid (\<lparr>node_resolution = 1 / 20, node_submaps = []\<rparr> :: unit Node)
         ''map'' 7 (5, 6) (int 1, int 3) ?px = Inr g"
    "length (data g) = 1 * 3"
    "\<forall>y x. y < 3 \<and> x < 1 \<longrightarrow>
          data g ! ((3 - 1 - y) * 1 + x) =
            (if (unat (?px ! (y * 1 + x)) div 2 ^ 8) mod 256 = 0 then - 1
             else if round ((1 - real ((unat (?px ! (y * 1 + x)) div 2 ^ 16) mod 256) / 255) * 100) > 50
             then 100 else 0)"
    using PublishOccupancyGrid_quantises [OF a, of "(\<lparr>node_resolution = 1 / 20, node_submaps = []\<rparr> :: unit Node)" "''map''" 7 "(5, 6)"]
    by auto
  have r: "round ((1 - real 127 / 255) * 100) = 50" "round ((1 - real 126 / 255) * 100) = 51"
    by (simp_all add: round_def)
  have d2: "data g ! 2 = 0" using g(3) [rule_format, of 0 0] by (simp add: round_def)
  have d1: "data g ! 1 = 100" using g(3) [rule_format, of 1 0] by (simp add: round_def)
  have d0: "data g ! 0 = - 1" using g(3) [rule_format, of 2 0] by (simp add: round_def)
  have "data g = [data g ! 0, data g ! 1, data g ! 2]"
    using g(2) by (cases "data g"; cases "tl (data g)"; cases "tl (tl (data g))") auto
  then have "data g = [- 1, 100, 0]" using d0 d1 d2 by simp
  then show ?thesis using g(1) r by (intro exI [of _ g]) simp
qed

text \<open>
  C3. For a canvas of \<open>W\<close> by \<open>H\<close> pixels and the origin offset \<open>(ox, oy)\<close>, the
  published grid has \<open>W * H\<close> cells; cell \<open>c\<close> of grid row \<open>r\<close> is the quantised pixel
  \<open>c\<close> of canvas row \<open>H - 1 - r\<close> (rows bottom to top, columns left to right, so grid row
  0 is the last canvas row); the resolution is the node's, the origin position is
  \<open>(- ox * resolution, (- H + oy) * resolution, 0)\<close> and the orientation is the identity
  quaternion.
\<close>

theorem PublishOccupancyGrid_layout:
  fixes W H :: nat
  assumes "W < 2 ^ 31" and "H < 2 ^ 31" and "W * H < 2 ^ 31" and "length pixel_data = W * H"
  shows "\<exists>g. PublishOccupancyGrid node frame_id time (ox, oy) (int W, int H) pixel_data = Inr g
    \<and> length (data g) = W * H
    \<and> (\<forall>r c. r < H \<and> c < W \<longrightarrow>
          Inr (data g ! (r * W + c)) = cell_value (pixel_data ! ((H - 1 - r) * W + c)))
    \<and> info_resolution g = node_resolution node \<and> info_width g = W \<and> info_height g = H
    \<and> origin_position g = (- ox * node_resolution node, (- real H + oy) * node_resolution node, 0)
    \<and> origin_orientation g = (1, 0, 0, 0)"
proof -
  let ?row = "\<lambda>y. map (\<lambda>x. projr (cell_value (pixel_data ! (y * W + x)))) [0 ..< W]"
  let ?rows = "map ?row (rev [0 ..< H])"
  let ?g = "\<lparr> header_stamp = time, header_frame_id = frame_id, info_map_load_time = time,
      info_resolution = node_resolution node, info_width = W, info_height = H,
      origin_position = (- ox * node_resolution node, (- real H + oy) * node_resolution node, 0),
      origin_orientation = (1, 0, 0, 0), data = concat ?rows \<rparr>"
  have cells: "grid_cells pixel_data (int W, int H) = Inr (concat ?rows)"
    using grid_cells_eq [OF assms(4) assms(3)] .
  have u32: "nat (int n mod 2 ^ 32) = n" if "n < 2 ^ 31" for n :: nat
  proof -
    have "n < 2 ^ 32" using that by simp
    then have "int n < 2 ^ 32" by (simp only: of_nat_less_numeral_power_cancel_iff)
    then show ?thesis by simp
  qed
  have w: "nat (int W mod 4294967296) = W" using u32 [OF assms(1)] by simp
  have h: "nat (int H mod 4294967296) = H" using u32 [OF assms(2)] by simp
  have "int (W * H) < 2 ^ 31"
    using assms(3) by (simp only: of_nat_less_numeral_power_cancel_iff)
  then have "int W * int H < 2147483648" by simp
  moreover have "0 \<le> int W * int H" by simp
  ultimately have prod: "int W * int H < 2147483648" "\<not> int W * int H < 0"
    "- 2147483648 \<le> int W * int H"
    by linarith+
  have pub: "PublishOccupancyGrid node frame_id time (ox, oy) (int W, int H) pixel_data = Inr ?g"
    by (simp add: PublishOccupancyGrid_def cells w h prod)
  have uni: "\<And>ys. ys \<in> set ?rows \<Longrightarrow> length ys = W" by auto
  have len: "length (concat ?rows) = W * H"
    using length_concat_uniform [of ?rows W, OF uni] by (simp add: mult.commute)
  have nth: "Inr (concat ?rows ! (r * W + c)) = cell_value (pixel_data ! ((H - 1 - r) * W + c))"
    if "r < H" and "c < W" for r c
  proof -
    have "concat ?rows ! (r * W + c) = ?rows ! r ! c"
      using that by (intro nth_concat_uniform [OF uni]) simp_all
    also have "?rows ! r = ?row (H - 1 - r)"
      using that by (simp add: rev_nth)
    also have "?row (H - 1 - r) ! c = projr (cell_value (pixel_data ! ((H - 1 - r) * W + c)))"
      using that by simp
    finally show ?thesis by (simp add: cell_value_projr [symmetric])
  qed
  show ?thesis
    by (rule exI [of _ ?g]) (simp add: pub len nth)
qed

theorem PublishOccupancyGrid_layout_witness:
  "\<exists>g. PublishOccupancyGrid (\<lparr>node_resolution = 1 / 20, node_submaps = []\<rparr> :: unit Node) ''map'' 7 (5, 6) (1, 2) [0xFF00FF00, 0xFFFFFF00] = Inr g
     \<and> data g = [0, 100] \<and> info_width g = 1 \<and> info_height g = 2
     \<and> origin_position g = (- 1 / 4, 1 / 5, 0)"
proof -
  have a: "(1::nat) < 2 ^ 31" "(2::nat) < 2 ^ 31" "(1::nat) * 2 < 2 ^ 31"
    "length [0xFF00FF00, 0xFFFFFF00 :: 32 word] = 1 * 2" by simp_all
  obtain g where g: "PublishOccupancyGrid (\<lparr>node_resolution = 1 / 20, node_submaps = []\<rparr> :: unit Node) ''map'' 7 (5, 6) (int 1, int 2) [0xFF00FF00, 0xFFFFFF00] = Inr g"
    "length (data g) = 1 * 2"
    "\<forall>r c. r < 2 \<and> c < 1 \<longrightarrow>
          Inr (data g ! (r * 1 + c)) = cell_value ([0xFF00FF00, 0xFFFFFF00] ! ((2 - 1 - r) * 1 + c))"
    "info_width g = 1" "info_height g = 2"
    "origin_position g = (- 5 * (1 / 20), (- real 2 + 6) * (1 / 20), 0)"
    using PublishOccupancyGrid_layout [OF a, of "(\<lparr>node_resolution = 1 / 20, node_submaps = []\<rparr> :: unit Node)" "''map''" 7 5 6]
    by auto
  have "Inr (data g ! 0) = cell_value 0xFFFFFF00" using g(3) [rule_format, of 0 0] by simp
  then have d0: "data g ! 0 = 0" by (simp add: cell_value_eq RoundToInt_def)
  have "Inr (data g ! 1) = cell_value 0xFF00FF00" using g(3) [rule_format, of 1 0] by simp
  then have d1: "data g ! 1 = 100" by (simp add: cell_value_eq RoundToInt_def)
  have "data g = [data g ! 0, data g ! 1]"
    using g(2) by (cases "data g"; cases "tl (data g)") auto
  then have "data g = [0, 100]" using d0 d1 by simp
  then show ?thesis using g by (intro exI [of _ g]) simp
qed

subsection \<open>The pixel words of a fetched texture\<close>

lemma bit_byte_shift:
  fixes b :: "8 word"
  assumes "bit (push_bit m (unat b)) k"
  shows "m \<le> k \<and> k < m + 8"
proof -
  from assms have "m \<le> k" and "bit (unat b) (k - m)" by (simp_all add: bit_push_bit_iff)
  then have "bit b (k - m)" by (simp add: bit_unsigned_iff)
  then have "k - m < 8" using bit_imp_le_length [of b "k - m"] by simp
  with \<open>m \<le> k\<close> show ?thesis by simp
qed

lemma unat_shifted_byte:
  fixes b :: "8 word"
  assumes "m + 8 \<le> 32"
  shows "unat (push_bit m (ucast b :: 32 word)) = push_bit m (unat b)"
proof -
  have "unat (push_bit m (ucast b :: 32 word)) = take_bit 32 (push_bit m (unat b))"
  proof -
    have "take_bit 32 (unat b) = unat b"
      using unsigned_less [of b, where ?'a = nat] by (simp add: take_bit_nat_eq_self)
    then show ?thesis by (simp add: unsigned_push_bit_eq unsigned_ucast_eq)
  qed
  also have "\<dots> = push_bit m (take_bit (32 - m) (unat b))"
    by (simp add: take_bit_push_bit)
  also have "take_bit (32 - m) (unat b) = unat b"
  proof -
    have "unat b < 2 ^ 8" using unsigned_less [of b, where ?'a = nat] by simp
    also have "(2::nat) ^ 8 \<le> 2 ^ (32 - m)" using assms by (intro power_increasing) simp_all
    finally show ?thesis by (simp add: take_bit_nat_eq_self)
  qed
  finally show ?thesis .
qed

lemma unat_three_bytes:
  fixes a n ob :: "8 word"
  shows "unat (push_bit 24 (ucast a :: 32 word) OR push_bit 16 (ucast n) OR push_bit 8 (ucast ob))
       = unat a * 2 ^ 24 + unat n * 2 ^ 16 + unat ob * 2 ^ 8"
proof -
  let ?A = "push_bit 24 (unat a)" and ?N = "push_bit 16 (unat n)" and ?O = "push_bit 8 (unat ob)"
  have "unat (push_bit 24 (ucast a :: 32 word) OR push_bit 16 (ucast n) OR push_bit 8 (ucast ob))
      = ?A OR (?N OR ?O)"
    by (simp add: unsigned_or_eq unat_shifted_byte or.assoc)
  also have "?N OR ?O = ?N + ?O"
  proof (rule disjunctive_add [symmetric])
    fix k show "\<not> bit ?N k \<or> \<not> bit ?O k"
      using bit_byte_shift [of 16 n k] bit_byte_shift [of 8 ob k] by auto
  qed
  also have "?A OR (?N + ?O) = ?A + (?N + ?O)"
  proof (rule disjunctive_add [symmetric])
    fix k
    have "\<not> bit ?A k \<or> \<not> bit (?N OR ?O) k"
      using bit_byte_shift [of 24 a k] bit_byte_shift [of 16 n k] bit_byte_shift [of 8 ob k]
      by (auto simp: bit_or_iff)
    then show "\<not> bit ?A k \<or> \<not> bit (?N + ?O) k" using \<open>?N OR ?O = ?N + ?O\<close> by simp
  qed
  finally show ?thesis by (simp add: push_bit_eq_mult)
qed

lemma fill_cairo_data_eq:
  assumes "length intensities \<le> length alphas"
  shows "fill_cairo_data intensities alphas =
    Inr (map (\<lambda>i. pack_pixel (intensities ! i) (alphas ! i)) [0 ..< length intensities])"
proof -
  have "foldM (push_pixel intensities alphas) [0 ..< length intensities] [] =
      Inr ([] @ concat (map (\<lambda>i. [pack_pixel (intensities ! i) (alphas ! i)]) [0 ..< length intensities]))"
  proof (rule foldM_push)
    fix i acc assume "i \<in> set [0 ..< length intensities]"
    then have "i < length intensities" "i < length alphas" using assms by simp_all
    then show "push_pixel intensities alphas i acc = Inr (acc @ [pack_pixel (intensities ! i) (alphas ! i)])"
      by (simp add: push_pixel_def vector_at_def)
  qed
  then show ?thesis by (simp add: fill_cairo_data_def)
qed

lemma pack_pixel_word:
  "pack_pixel intensity alpha =
     push_bit 24 (ucast alpha) OR push_bit 16 (ucast intensity)
       OR push_bit 8 (if intensity = 0 \<and> alpha = 0 then 0 else 255)"
  by (simp add: pack_pixel_def Let_def)

lemma pack_pixel_unat:
  "unat (pack_pixel intensity alpha) =
     unat alpha * 2 ^ 24 + unat intensity * 2 ^ 16
       + (if intensity = 0 \<and> alpha = 0 then 0 else 255) * 2 ^ 8"
  using unat_three_bytes [of alpha intensity "if intensity = 0 \<and> alpha = 0 then 0 else 255"]
  by (simp add: pack_pixel_def Let_def)

text \<open>
  For every fetched texture whose alpha values are at least as many as its intensities,
  the loop of the cache update builds one word for every pixel index \<open>i\<close>: the alpha byte
  shifted by 24, or the intensity byte shifted by 16, or the observed byte shifted by 8,
  where the observed byte is 0 when intensity and alpha are both 0 and 255 for every other
  pair. The three bytes do not overlap: the value of the word is the sum of the three
  shifted bytes.
\<close>

lemma fill_cairo_data_words:
  assumes "length intensities \<le> length alphas"
  shows "\<exists>pixels. fill_cairo_data intensities alphas = Inr pixels
    \<and> length pixels = length intensities
    \<and> (\<forall>i < length intensities.
          pixels ! i =
            push_bit 24 (ucast (alphas ! i)) OR push_bit 16 (ucast (intensities ! i))
              OR push_bit 8 (if intensities ! i = 0 \<and> alphas ! i = 0 then 0 else 255)
        \<and> unat (pixels ! i) =
            unat (alphas ! i) * 2 ^ 24 + unat (intensities ! i) * 2 ^ 16
              + (if intensities ! i = 0 \<and> alphas ! i = 0 then 0 else 255) * 2 ^ 8)"
  using fill_cairo_data_eq [OF assms] pack_pixel_word pack_pixel_unat by simp

lemma fill_cairo_data_example:
  "fill_cairo_data [0, 0, 7] [0, 255, 0] = Inr [0x00000000, 0xFF00FF00, 0x0007FF00]"
proof -
  have "length [0, 0, 7 :: 8 word] \<le> length [0, 255, 0 :: 8 word]" by simp
  from fill_cairo_data_words [OF this]
  obtain pixels where p: "fill_cairo_data [0, 0, 7] [0, 255, 0] = Inr pixels"
    "length pixels = 3"
    "\<forall>i < 3. pixels ! i =
            push_bit 24 (ucast ([0, 255, 0 :: 8 word] ! i)) OR push_bit 16 (ucast ([0, 0, 7 :: 8 word] ! i))
              OR push_bit 8 (if [0, 0, 7 :: 8 word] ! i = 0 \<and> [0, 255, 0 :: 8 word] ! i = 0 then 0 else 255)"
    by auto
  have "pixels ! 0 = 0" "pixels ! 1 = 0xFF00FF00" "pixels ! 2 = 0x0007FF00"
    using p(3) [rule_format, of 0] p(3) [rule_format, of 1] p(3) [rule_format, of 2] by simp_all
  moreover have "pixels = [pixels ! 0, pixels ! 1, pixels ! 2]"
    using p(2) by (cases pixels; cases "tl pixels"; cases "tl (tl pixels)") auto
  ultimately show ?thesis using p(1) by simp
qed

subsection \<open>The cache update\<close>

lemma map_of_map_assign: "map_of (map_assign k v m) = (map_of m)(k \<mapsto> v)"
  by (induction m) (auto simp: fun_eq_iff)

lemma map_assign_idem: "map_assign k v (map_assign k v m) = map_assign k v m"
  by (induction m) auto

lemma sorted_map_assign:
  "sorted (map fst m) \<Longrightarrow> distinct (map fst m) \<Longrightarrow>
   sorted (map fst (map_assign k v m)) \<and> distinct (map fst (map_assign k v m))
   \<and> set (map fst (map_assign k v m)) = insert k (set (map fst m))"
  by (induction m) (auto simp: less_le)

lemma handle_submap_cached_eq:
  assumes "map_of submaps (trajectory_id e, submap_index e) = Some s"
    and "surface s \<noteq> None" and "version s = submap_version e"
  shows "handle_submap ext e (submaps, world, fetched) =
    Inr (map_assign (trajectory_id e, submap_index e)
           (s\<lparr>pose := entry_pose e, metadata_version := submap_version e\<rparr>) submaps, world, fetched)"
  using assms by (simp add: handle_submap_def Let_def)

lemma handle_submap_failed_eq:
  assumes "FetchSubmapTexture ext (trajectory_id e, submap_index e) world = (None, world')"
    and "old = (case map_of submaps (trajectory_id e, submap_index e) of
                  None \<Rightarrow> SubmapState_init ext | Some s \<Rightarrow> s)"
    and "\<not> (surface old \<noteq> None \<and> version old = submap_version e)"
  shows "handle_submap ext e (submaps, world, fetched) =
    Inr (map_assign (trajectory_id e, submap_index e)
           (old\<lparr>pose := entry_pose e, metadata_version := submap_version e\<rparr>) submaps,
         world', fetched @ [(trajectory_id e, submap_index e)])"
  using assms by (auto simp: handle_submap_def Let_def)


lemma handle_submap_fetched_grows:
  assumes "handle_submap ext e st = Inr st'"
  shows "\<exists>xs. snd (snd st') = snd (snd st) @ xs"
  using assms
  by (auto simp: handle_submap_def Let_def split: if_splits prod.splits option.splits sum.splits)

lemma handle_submap_other:
  assumes "handle_submap ext e st = Inr st'" and "k \<noteq> (trajectory_id e, submap_index e)"
  shows "map_of (fst st') k = map_of (fst st) k"
  using assms
  by (auto simp: handle_submap_def Let_def map_of_map_assign
      split: if_splits prod.splits option.splits sum.splits)

lemma handle_submap_absent_fetches:
  assumes "handle_submap ext e st = Inr st'"
    and "\<forall>s. map_of (fst st) (trajectory_id e, submap_index e) = Some s \<longrightarrow> surface s = None"
  shows "(trajectory_id e, submap_index e) \<in> set (snd (snd st'))"
  using assms
  by (auto simp: handle_submap_def Let_def SubmapState_init_def
      split: if_splits prod.splits option.splits sum.splits)

lemma handle_submaps_fetched_grows:
  assumes "handle_submaps ext es st = Inr st'"
  shows "\<exists>xs. snd (snd st') = snd (snd st) @ xs"
  using assms unfolding handle_submaps_def
proof (induction es arbitrary: st)
  case Nil
  then show ?case by simp
next
  case (Cons e es)
  then obtain st1 where 1: "handle_submap ext e st = Inr st1" and 2: "foldM (handle_submap ext) es st1 = Inr st'"
    by (auto split: sum.splits)
  from handle_submap_fetched_grows [OF 1] Cons.IH [OF 2] show ?case by auto
qed

lemma handle_submaps_absent_fetches:
  assumes "handle_submaps ext es st = Inr st'"
    and "e \<in> set es" and "(trajectory_id e, submap_index e) = k"
    and "\<forall>s. map_of (fst st) k = Some s \<longrightarrow> surface s = None"
  shows "k \<in> set (snd (snd st'))"
  using assms
proof (induction es arbitrary: st)
  case Nil
  then show ?case by simp
next
  case (Cons a es)
  from Cons.prems(1) obtain st1 where 1: "handle_submap ext a st = Inr st1"
    and 2: "handle_submaps ext es st1 = Inr st'"
    by (auto simp: handle_submaps_def split: sum.splits)
  show ?case
  proof (cases "(trajectory_id a, submap_index a) = k")
    case True
    then have "k \<in> set (snd (snd st1))"
      using handle_submap_absent_fetches [OF 1] Cons.prems(4) by simp
    moreover obtain xs where "snd (snd st') = snd (snd st1) @ xs"
      using handle_submaps_fetched_grows [OF 2] by blast
    ultimately show ?thesis by simp
  next
    case False
    then have "e \<in> set es" using Cons.prems(2,3) by auto
    moreover have "map_of (fst st1) k = map_of (fst st) k"
      using handle_submap_other [OF 1] False by simp
    ultimately show ?thesis using Cons.IH [OF 2 _ Cons.prems(3)] Cons.prems(4) by simp
  qed
qed



text \<open>
  When the loop reaches an entry whose submap has a surface and whose
  reported version is the version of the cached texture, it does not call
  \<^verbatim>\<open>FetchSubmapTexture\<close> (the world outside and the list of the identities fetched
  are as before); width, height, version, resolution, slice pose, surface and pixel words of
  the submap are as before, its pose and metadata version are those of the message, and no
  other submap changes. Handling the same entry again from the state reached changes
  nothing and does not fetch: so a second update with the same identity and version does
  not fetch whenever the first one leaves a surface cached at that version.
\<close>

lemma handle_submap_cached_entry:
  assumes "map_of submaps (trajectory_id e, submap_index e) = Some s"
    and "surface s \<noteq> None" and "version s = submap_version e"
  shows "\<exists>submaps' s'.
      handle_submap ext e (submaps, world, fetched) = Inr (submaps', world, fetched)
    \<and> map_of submaps' (trajectory_id e, submap_index e) = Some s'
    \<and> width s' = width s \<and> height s' = height s \<and> version s' = version s
    \<and> resolution s' = resolution s \<and> slice_pose s' = slice_pose s
    \<and> surface s' = surface s \<and> cairo_data s' = cairo_data s
    \<and> pose s' = entry_pose e \<and> metadata_version s' = submap_version e
    \<and> (\<forall>k. k \<noteq> (trajectory_id e, submap_index e) \<longrightarrow> map_of submaps' k = map_of submaps k)
    \<and> handle_submap ext e (submaps', world, fetched) = Inr (submaps', world, fetched)"
proof -
  let ?k = "(trajectory_id e, submap_index e)"
  let ?s = "s\<lparr>pose := entry_pose e, metadata_version := submap_version e\<rparr>"
  let ?m = "map_assign ?k ?s submaps"
  have 1: "handle_submap ext e (submaps, world, fetched) = Inr (?m, world, fetched)"
    using handle_submap_cached_eq [OF assms] .
  have 2: "map_of ?m ?k = Some ?s" by (simp add: map_of_map_assign)
  have "handle_submap ext e (?m, world, fetched) =
      Inr (map_assign ?k (?s\<lparr>pose := entry_pose e, metadata_version := submap_version e\<rparr>) ?m,
           world, fetched)"
    using assms(2,3) by (intro handle_submap_cached_eq [OF 2]) simp_all
  then have 3: "handle_submap ext e (?m, world, fetched) = Inr (?m, world, fetched)"
    by (simp add: map_assign_idem)
  show ?thesis
    by (rule exI [of _ ?m], rule exI [of _ ?s]) (simp add: 1 2 3 map_of_map_assign)
qed

lemma handle_submap_cached_example:
  "handle_submap (example_collaborators (\<lambda>k w. (None, w + 1))) (example_entry 0 5 3)
     ([((0, 0), example_state 5 1 4)], 0, []) =
   Inr ([((0, 0), example_state 5 3 5)], 0, [])"
proof -
  let ?e = "example_entry 0 5 3"
  have a: "map_of [((0, 0), example_state 5 1 4)] (trajectory_id ?e, submap_index ?e)
      = Some (example_state 5 1 4)"
    "surface (example_state 5 1 4) \<noteq> None"
    "version (example_state 5 1 4) = submap_version ?e"
    by (simp_all add: example_entry_def example_state_def)
  from handle_submap_cached_entry [OF a, of "example_collaborators (\<lambda>k w. (None, w + 1))" 0 "[]"]
  obtain submaps' s' where r:
    "handle_submap (example_collaborators (\<lambda>k w. (None, w + 1))) ?e
       ([((0, 0), example_state 5 1 4)], 0, []) = Inr (submaps', 0, [])"
    by blast
  then show ?thesis
    by (simp add: handle_submap_def example_entry_def example_state_def Let_def)
qed

text \<open>
  The second update with the same identity and version can fetch again: the texture fetched
  by the first update carries its own version (7 here, for the reported version 5), and it
  is the version of the texture that the next message is compared with.
\<close>

lemma handle_submaps_refetches:
  "handle_submaps (example_collaborators (\<lambda>k w. (Some (example_texture 7), w + 1)))
     [example_entry 0 5 3] ([], 0, []) = Inr ([((0, 0), example_state 7 3 5)], 1, [(0, 0)])
   \<and> handle_submaps (example_collaborators (\<lambda>k w. (Some (example_texture 7), w + 1)))
     [example_entry 0 5 3] ([((0, 0), example_state 7 3 5)], 1, [])
     = Inr ([((0, 0), example_state 7 3 5)], 2, [(0, 0)])"
  by (simp add: handle_submaps_def handle_submap_def example_collaborators_def example_entry_def
      example_state_def example_texture_def SubmapState_init_def Let_def fill_cairo_data_def
      push_pixel_def vector_at_def pack_pixel_def)

text \<open>
  When \<^verbatim>\<open>FetchSubmapTexture\<close> is called for an entry and returns the null
  pointer, the loop goes on with the rest of the batch; the surface, the pixel words and the
  texture fields of that submap are as before (a submap that had no surface still has none),
  only its pose and metadata version are those of the message, and no other submap changes.
  A submap without a surface is fetched again by every later batch that names it and runs to
  its end.
\<close>

lemma handle_submap_failed_entry:
  fixes ext :: "('p, 'w) Collaborators"
  assumes fail: "FetchSubmapTexture ext (trajectory_id e, submap_index e) world = (None, world')"
    and old: "old = (case map_of submaps (trajectory_id e, submap_index e) of
                       None \<Rightarrow> SubmapState_init ext | Some s \<Rightarrow> s)"
    and stale: "\<not> (surface old \<noteq> None \<and> version old = submap_version e)"
  shows "\<exists>submaps' s'.
      handle_submap ext e (submaps, world, fetched) =
        Inr (submaps', world', fetched @ [(trajectory_id e, submap_index e)])
    \<and> map_of submaps' (trajectory_id e, submap_index e) = Some s'
    \<and> surface s' = surface old \<and> cairo_data s' = cairo_data old
    \<and> width s' = width old \<and> height s' = height old \<and> version s' = version old
    \<and> resolution s' = resolution old \<and> slice_pose s' = slice_pose old
    \<and> (\<forall>k. k \<noteq> (trajectory_id e, submap_index e) \<longrightarrow> map_of submaps' k = map_of submaps k)
    \<and> handle_submaps ext (e # rest) (submaps, world, fetched) =
        handle_submaps ext rest (submaps', world', fetched @ [(trajectory_id e, submap_index e)])
    \<and> (surface old = None \<longrightarrow>
         (\<forall>(ext2 :: ('p, 'w) Collaborators) world2 entries e2 st.
            e2 \<in> set entries \<and> (trajectory_id e2, submap_index e2) = (trajectory_id e, submap_index e)
            \<and> handle_submaps ext2 entries (submaps', world2, []) = Inr st
            \<longrightarrow> (trajectory_id e, submap_index e) \<in> set (snd (snd st))))"
proof -
  let ?k = "(trajectory_id e, submap_index e)"
  let ?s = "old\<lparr>pose := entry_pose e, metadata_version := submap_version e\<rparr>"
  let ?m = "map_assign ?k ?s submaps"
  have 1: "handle_submap ext e (submaps, world, fetched) = Inr (?m, world', fetched @ [?k])"
    using handle_submap_failed_eq [OF fail old stale] .
  have 2: "map_of ?m ?k = Some ?s" by (simp add: map_of_map_assign)
  have 3: "handle_submaps ext (e # rest) (submaps, world, fetched) =
      handle_submaps ext rest (?m, world', fetched @ [?k])"
    by (simp add: handle_submaps_def 1)
  have 4: "surface old = None \<longrightarrow>
         (\<forall>(ext2 :: ('p, 'w) Collaborators) world2 entries e2 st.
            e2 \<in> set entries \<and> (trajectory_id e2, submap_index e2) = ?k
            \<and> handle_submaps ext2 entries (?m, world2, []) = Inr st
            \<longrightarrow> ?k \<in> set (snd (snd st)))"
  proof (intro impI allI, elim conjE)
    fix ext2 :: "('p, 'w) Collaborators" and world2 entries e2 st
    assume a: "surface old = None" "e2 \<in> set entries"
      "(trajectory_id e2, submap_index e2) = ?k"
      "handle_submaps ext2 entries (?m, world2, []) = Inr st"
    show "?k \<in> set (snd (snd st))"
      using handle_submaps_absent_fetches [OF a(4) a(2) a(3)] 2 a(1) by simp
  qed
  have 5: "\<forall>k. k \<noteq> ?k \<longrightarrow> map_of ?m k = map_of submaps k"
    by (simp add: map_of_map_assign)
  have 6: "surface ?s = surface old \<and> cairo_data ?s = cairo_data old
    \<and> width ?s = width old \<and> height ?s = height old \<and> version ?s = version old
    \<and> resolution ?s = resolution old \<and> slice_pose ?s = slice_pose old"
    by simp
  show ?thesis
    by (rule exI [of _ ?m], rule exI [of _ ?s]) (use 1 2 3 4 5 6 in blast)
qed

lemma handle_submap_failed_example:
  "handle_submaps
     (example_collaborators (\<lambda>k w. if k = (0, 0) then (None, w + 1) else (Some (example_texture 2), w + 1)))
     [example_entry 0 5 3, example_entry 1 2 4] ([], 0, []) =
   Inr ([((0, 0), example_unfetched 3 5), ((0, 1), example_state 2 4 2)], 2, [(0, 0), (0, 1)])
   \<and> handle_submaps
     (example_collaborators (\<lambda>k w. if k = (0, 0) then (None, w + 1) else (Some (example_texture 2), w + 1)))
     [example_entry 0 6 3] ([((0, 0), example_unfetched 3 5)], 7, []) =
   Inr ([((0, 0), example_unfetched 3 6)], 8, [(0, 0)])"
proof -
  let ?ext = "example_collaborators
    (\<lambda>k w. if k = (0, 0) then (None, w + 1) else (Some (example_texture 2), w + 1))"
  let ?e = "example_entry 0 5 3"
  note defs = handle_submaps_def handle_submap_def example_collaborators_def example_entry_def
      example_state_def example_texture_def example_unfetched_def SubmapState_init_def Let_def
      fill_cairo_data_def push_pixel_def vector_at_def pack_pixel_def
  have a: "FetchSubmapTexture ?ext (trajectory_id ?e, submap_index ?e) 0 = (None, 1)"
    "example_unfetched 0 (- 1) = (case map_of [] (trajectory_id ?e, submap_index ?e) of
         None \<Rightarrow> SubmapState_init ?ext | Some s \<Rightarrow> s)"
    "\<not> (surface (example_unfetched 0 (- 1)) \<noteq> None
        \<and> version (example_unfetched 0 (- 1)) = submap_version ?e)"
    by (simp_all add: defs)
  from handle_submap_failed_entry [OF a, of "[]" "[example_entry 1 2 4]"]
  obtain submaps' where
    1: "handle_submap ?ext ?e ([], 0, []) = Inr (submaps', 1, [] @ [(trajectory_id ?e, submap_index ?e)])"
    and 2: "handle_submaps ?ext [?e, example_entry 1 2 4] ([], 0, []) =
        handle_submaps ?ext [example_entry 1 2 4] (submaps', 1, [] @ [(trajectory_id ?e, submap_index ?e)])"
    by blast
  have 3: "submaps' = [((0, 0), example_unfetched 3 5)]"
    using 1 by (simp add: defs)
  have 4: "handle_submaps ?ext [example_entry 1 2 4] ([((0, 0), example_unfetched 3 5)], 1, [(0, 0)]) =
      Inr ([((0, 0), example_unfetched 3 5), ((0, 1), example_state 2 4 2)], 2, [(0, 0), (0, 1)])"
    by (simp add: defs)
  have 5: "handle_submaps ?ext [example_entry 0 6 3] ([((0, 0), example_unfetched 3 5)], 7, []) =
      Inr ([((0, 0), example_unfetched 3 6)], 8, [(0, 0)])"
    by (simp add: defs)
  have "(trajectory_id ?e, submap_index ?e) = (0, 0)" by (simp add: example_entry_def)
  with 2 3 4 5 show ?thesis by simp
qed

subsection \<open>Nested loops and loops that write one cell at a time\<close>

lemma foldM_map: "foldM f (map g xs) s = foldM (\<lambda>x. f (g x)) xs s"
  by (induction xs arbitrary: s) (auto split: sum.splits)

lemma foldM_nested:
  "foldM (\<lambda>y. foldM (f y) xs) ys s = foldM (\<lambda>p. f (fst p) (snd p)) (List.product ys xs) s"
proof (induction ys arbitrary: s)
  case Nil
  show ?case by simp
next
  case (Cons y ys)
  show ?case
    by (simp add: foldM_append foldM_map Cons.IH split: sum.splits)
qed

lemma upt_split_rows: "[0 ..< Suc h * w] = [0 ..< h * w] @ map (\<lambda>x. h * w + x) [0 ..< w]"
proof -
  have "[0 ..< h * w + w] = [0 ..< h * w] @ [h * w ..< h * w + w]"
    by (rule upt_add_eq_append) simp
  moreover have "[h * w ..< h * w + w] = map (\<lambda>x. h * w + x) [0 ..< w]"
    by (simp add: map_add_upt add.commute)
  ultimately show ?thesis by (simp add: add.commute)
qed

lemma product_snoc: "List.product (ys @ [y]) xs = List.product ys xs @ map (Pair y) xs"
  by (induction ys) simp_all

lemma product_upt:
  assumes "0 < w"
  shows "List.product [0 ..< h] [0 ..< w] = map (\<lambda>k. (k div w, k mod w)) [0 ..< h * w]"
proof (induction h)
  case 0
  show ?case by simp
next
  case (Suc h)
  have "map (\<lambda>k. (k div w, k mod w)) (map (\<lambda>x. h * w + x) [0 ..< w]) = map (Pair h) [0 ..< w]"
    using assms by simp
  then show ?case
    using Suc by (simp only: upt_split_rows map_append upt_Suc_append [OF le0] product_snoc)
qed

text \<open>
  A loop over \<open>[0 ..< n]\<close> whose step \<open>k\<close> writes cell \<open>k\<close> only: the step at \<open>k\<close> ran
  on the cells already written before \<open>k\<close> and the first cells from \<open>k\<close> on.
\<close>

lemma foldM_upt_steps:
  assumes step: "\<And>k d d'. G k d = Inr d' \<Longrightarrow> k < length d \<and> (\<exists>v. d' = d[k := v])"
    and run: "foldM G [0 ..< n] d0 = Inr dn"
  shows "length dn = length d0 \<and> drop n dn = drop n d0
    \<and> (\<forall>k<n. G k (take k dn @ drop k d0) = Inr ((take k dn @ drop k d0)[k := dn ! k]))"
  using run
proof (induction n arbitrary: dn)
  case 0
  then show ?case by simp
next
  case (Suc n)
  from Suc.prems obtain dm where m: "foldM G [0 ..< n] d0 = Inr dm" and s: "G n dm = Inr dn"
    by (auto simp: foldM_append split: sum.splits)
  from Suc.IH [OF m] have len: "length dm = length d0" and dr: "drop n dm = drop n d0"
    and ih: "\<forall>k<n. G k (take k dm @ drop k d0) = Inr ((take k dm @ drop k d0)[k := dm ! k])"
    by simp_all
  from step [OF s] obtain v where n: "n < length dm" and dn: "dn = dm[n := v]" by blast
  have tk: "take k dn = take k dm" if "k \<le> n" for k using that dn by simp
  have nk: "dn ! k = dm ! k" if "k < n" for k using that dn by simp
  have "take n dn @ drop n d0 = take n dm @ drop n dm" using tk [of n] dr by simp
  then have cur: "take n dn @ drop n d0 = dm" by simp
  have v: "dn ! n = v" using dn n by simp
  have "G n (take n dn @ drop n d0) = Inr ((take n dn @ drop n d0)[n := dn ! n])"
    unfolding cur v using s dn by simp
  moreover have "G k (take k dn @ drop k d0) = Inr ((take k dn @ drop k d0)[k := dn ! k])"
    if "k < n" for k
    using ih that tk [of k] nk [of k] by simp
  moreover have "drop (Suc n) dn = drop (Suc n) d0"
  proof -
    have "drop (Suc n) dn = drop (Suc n) dm" using dn by simp
    also have "\<dots> = drop 1 (drop n dm)" by simp
    also have "\<dots> = drop (Suc n) d0" unfolding dr by simp
    finally show ?thesis .
  qed
  moreover have "length dn = length d0" using dn len by simp
  ultimately show ?case by (simp add: less_Suc_eq)
qed

subsection \<open>The filter\<close>

lemma filter_cell_step:
  assumes "filter_cell w h t y x d = Inr d'"
  shows "y * w + x < length d \<and> (\<exists>v. d' = d[y * w + x := v])"
  using assms
  by (auto simp: filter_cell_def data_at_def split: if_splits sum.splits)

lemma scan_cells_count:
  assumes "foldM (\<lambda>p. scan_cell cells w t (fst p) (snd p)) ps cn0 = Inr cn"
  shows "fst cn = fst cn0 + length ps
    \<and> snd cn = snd cn0 + length (filter (\<lambda>p. 0 < cells ! (fst p * w + snd p)
                                   \<and> real_of_int (cells ! (fst p * w + snd p)) < t) ps)
    \<and> (\<forall>p \<in> set ps. fst p * w + snd p < length cells)"
  using assms
proof (induction ps arbitrary: cn0)
  case Nil
  then show ?case by simp
next
  case (Cons p ps)
  from Cons.prems obtain cn1 where 1: "scan_cell cells w t (fst p) (snd p) cn0 = Inr cn1"
    and 2: "foldM (\<lambda>p. scan_cell cells w t (fst p) (snd p)) ps cn1 = Inr cn"
    by (auto split: sum.splits)
  from 1 have b: "fst p * w + snd p < length cells"
    and c: "fst cn1 = fst cn0 + 1"
    and n: "snd cn1 = (if 0 < cells ! (fst p * w + snd p)
                        \<and> real_of_int (cells ! (fst p * w + snd p)) < t then snd cn0 + 1 else snd cn0)"
    by (auto simp: scan_cell_def data_at_def split: if_splits)
  from Cons.IH [OF 2] b c n show ?case by simp
qed

lemma scan_window_count:
  assumes "scan_window cells w h t y x = Inr cn"
    and "reads = map (\<lambda>p. fst p * w + snd p) (List.product (window_range y h) (window_range x w))"
  shows "fst cn = length reads
    \<and> snd cn = length (filter (\<lambda>k. 0 < cells ! k \<and> real_of_int (cells ! k) < t) reads)
    \<and> (\<forall>k \<in> set reads. k < length cells)"
proof -
  let ?ps = "List.product (window_range y h) (window_range x w)"
  have "foldM (\<lambda>p. scan_cell cells w t (fst p) (snd p)) ?ps (0, 0) = Inr cn"
    using assms(1) by (simp add: scan_window_def foldM_nested)
  from scan_cells_count [OF this]
  have "fst cn = length ?ps"
    and "snd cn = length (filter (\<lambda>p. 0 < cells ! (fst p * w + snd p)
                                   \<and> real_of_int (cells ! (fst p * w + snd p)) < t) ?ps)"
    and "\<forall>p \<in> set ?ps. fst p * w + snd p < length cells"
    by simp_all
  then show ?thesis unfolding assms(2) by (simp add: filter_map comp_def)
qed

lemma FilterOccupancyGrid_steps:
  assumes run: "FilterOccupancyGrid g t = Inr g'"
    and y: "y < info_height g" and x: "x < info_width g"
    and k: "k = y * info_width g + x"
    and cur: "cur = take k (data g') @ drop k (data g)"
  shows "length (data g') = length (data g) \<and> k < length (data g) \<and> cur ! k = data g ! k
    \<and> filter_cell (info_width g) (info_height g) t y x cur = Inr (cur[k := data g' ! k])"
proof -
  let ?w = "info_width g" and ?h = "info_height g"
  let ?G = "\<lambda>k. filter_cell ?w ?h t (k div ?w) (k mod ?w)"
  have w: "0 < ?w" using x by simp
  from run have nested: "foldM (\<lambda>y. foldM (filter_cell ?w ?h t y) [0 ..< ?w]) [0 ..< ?h] (data g) = Inr (data g')"
    by (auto simp: FilterOccupancyGrid_def split: sum.splits)
  then have flat: "foldM ?G [0 ..< ?h * ?w] (data g) = Inr (data g')"
    by (simp add: foldM_nested product_upt [OF w] foldM_map)
  have step: "k < length d \<and> (\<exists>v. d' = d[k := v])" if "?G k d = Inr d'" for k d d'
    using filter_cell_step [OF that] by simp
  from foldM_upt_steps [of ?G, OF step flat]
  have len: "length (data g') = length (data g)"
    and all: "\<forall>k < ?h * ?w. ?G k (take k (data g') @ drop k (data g))
        = Inr ((take k (data g') @ drop k (data g))[k := data g' ! k])"
    by simp_all
  have kb: "k < ?h * ?w" using index_in_range [OF y x] k by (simp add: mult.commute)
  have dm: "k div ?w = y" "k mod ?w = x" using x k by simp_all
  from all kb have f: "filter_cell ?w ?h t y x cur = Inr (cur[k := data g' ! k])"
    unfolding cur dm [symmetric] by simp
  from filter_cell_step [OF f] have "k < length cur" using k by simp
  then have kl: "k < length (data g)" using cur len by simp
  then have "cur ! k = data g ! k" using cur len by (simp add: nth_append)
  with len kl f show ?thesis by simp
qed

lemmas filter_defs = FilterOccupancyGrid_def filter_cell_def scan_window_def scan_cell_def
  data_at_def window_range_def window_first_def window_last_def example_grid_def

lemma FilterOccupancyGrid_visit:
  assumes run: "FilterOccupancyGrid g t = Inr g'"
    and y: "y < info_height g" and x: "x < info_width g"
    and k: "k = y * info_width g + x"
    and c: "data g ! k < 0 \<or> real_of_int (data g ! k) > t"
    and cur: "cur = take k (data g') @ drop k (data g)"
  shows "\<exists>cn. scan_window cur (info_width g) (info_height g) t y x = Inr cn
    \<and> data g' ! k = (if snd cn > fst cn div 2 then 0 else if data g ! k > 0 then 100 else - 1)
    \<and> cur ! k = data g ! k \<and> length cur = length (data g)"
proof -
  let ?w = "info_width g" and ?h = "info_height g"
  from FilterOccupancyGrid_steps [OF run y x k cur]
  have len: "length (data g') = length (data g)" and kl: "k < length (data g)"
    and ck: "cur ! k = data g ! k"
    and f: "filter_cell ?w ?h t y x cur = Inr (cur[k := data g' ! k])"
    by simp_all
  have lc: "length cur = length (data g)" using cur len kl by simp
  have at: "data_at cur (y * ?w + x) = Inr (data g ! k)"
    using kl lc ck k by (simp add: data_at_def)
  from f at c obtain cn where s: "scan_window cur ?w ?h t y x = Inr cn"
    and v: "cur[k := (if snd cn > fst cn div 2 then 0 else if data g ! k > 0 then 100 else - 1)]
        = cur[k := data g' ! k]"
    by (auto simp: filter_cell_def k split: sum.splits if_splits)
  have "cur[k := (if snd cn > fst cn div 2 then 0 else if data g ! k > 0 then 100 else - 1)] ! k
      = cur[k := data g' ! k] ! k"
    using v by simp
  then have "data g' ! k = (if snd cn > fst cn div 2 then 0 else if data g ! k > 0 then 100 else - 1)"
    using kl lc by simp
  with s ck lc show ?thesis by blast
qed

text \<open>
  Let \<^verbatim>\<open>FilterOccupancyGrid\<close> run to its end on a grid, and let a
  cell hold a value above the threshold (or a negative one). When the filter visits the
  cell, the cells before it in row-major order hold their filtered values and the others
  their first values; the scan of its window reads the cells \<open>reads\<close>, all inside the
  array. The cell is set to 0 exactly when more than half of the cells read hold a value
  strictly between 0 and the threshold; otherwise it is set to 100 when its value was
  positive and to \<open>- 1\<close> when not. A cell that holds 0 is not counted.
\<close>

lemma FilterOccupancyGrid_vote:
  assumes run: "FilterOccupancyGrid g t = Inr g'"
    and y: "y < info_height g" and x: "x < info_width g"
    and k: "k = y * info_width g + x"
    and c: "data g ! k < 0 \<or> real_of_int (data g ! k) > t"
    and cur: "cur = take k (data g') @ drop k (data g)"
    and reads: "reads = map (\<lambda>p. fst p * info_width g + snd p)
        (List.product (window_range y (info_height g)) (window_range x (info_width g)))"
  shows "(\<forall>p \<in> set reads. p < length (data g))
    \<and> data g' ! k =
        (if length (filter (\<lambda>p. 0 < cur ! p \<and> real_of_int (cur ! p) < t) reads) > length reads div 2
         then 0 else if data g ! k > 0 then 100 else - 1)"
proof -
  from FilterOccupancyGrid_visit [OF run y x k c cur]
  obtain cn where s: "scan_window cur (info_width g) (info_height g) t y x = Inr cn"
    and v: "data g' ! k = (if snd cn > fst cn div 2 then 0 else if data g ! k > 0 then 100 else - 1)"
    and lc: "length cur = length (data g)"
    by blast
  from scan_window_count [OF s reads]
  have "fst cn = length reads"
    and "snd cn = length (filter (\<lambda>k. 0 < cur ! k \<and> real_of_int (cur ! k) < t) reads)"
    and "\<forall>k \<in> set reads. k < length cur"
    by simp_all
  with v lc show ?thesis by simp
qed

lemma FilterOccupancyGrid_vote_example:
  "FilterOccupancyGrid (example_grid 5 5
      [100, 10, 10, 10, 10,
       10, 10, 10, 10, 10,
       10, 10, 10, 10, 10,
       10, 10, 10, 10, 10,
       10, 10, 10, 10, 10]) 50 =
    Inr (example_grid 5 5
      [0, 0, 0, 0, 0,
       0, 0, 0, 0, 0,
       0, 0, 0, 0, 0,
       0, 0, 0, 0, 0,
       0, 0, 0, 0, 0])
   \<and> map (\<lambda>p. fst p * 5 + snd p) (List.product (window_range 0 5) (window_range 0 5))
       = [0, 1, 2, 5, 6, 7, 10, 11, 12]"
proof -
  let ?g = "example_grid 5 5
      [100, 10, 10, 10, 10,
       10, 10, 10, 10, 10,
       10, 10, 10, 10, 10,
       10, 10, 10, 10, 10,
       10, 10, 10, 10, 10]"
  let ?g' = "example_grid 5 5
      [0, 0, 0, 0, 0,
       0, 0, 0, 0, 0,
       0, 0, 0, 0, 0,
       0, 0, 0, 0, 0,
       0, 0, 0, 0, 0]"
  have run: "FilterOccupancyGrid ?g 50 = Inr ?g'"
    by (simp add: filter_defs upt_rec)
  have r: "[0, 1, 2, 5, 6, 7, 10, 11, 12] = map (\<lambda>p. fst p * info_width ?g + snd p)
        (List.product (window_range 0 (info_height ?g)) (window_range 0 (info_width ?g)))"
    by (simp add: filter_defs upt_rec)
  have "data ?g' ! 0 =
        (if length (filter (\<lambda>p. 0 < data ?g ! p \<and> real_of_int (data ?g ! p) < 50)
                     [0, 1, 2, 5, 6, 7, 10, 11, 12]) > length [0, 1, 2, 5, 6, 7, 10, 11, 12 :: nat] div 2
         then 0 else if data ?g ! 0 > 0 then 100 else - 1)"
    using FilterOccupancyGrid_vote [OF run, of 0 0 0 "data ?g" "[0, 1, 2, 5, 6, 7, 10, 11, 12]"] r
    by (simp add: example_grid_def)
  with run r show ?thesis by (simp add: example_grid_def)
qed

text \<open>
  C9. A cell with the value 100, above the threshold 50, whose 5 by 5 neighbourhood holds
  the free value 0 everywhere else, is not set to 0: it keeps the value 100 and the filter
  leaves this grid as it is. Line 290 counts a cell as free only when its value is strictly
  between 0 and the threshold, so the 24 free neighbours give no vote.
\<close>

theorem FilterOccupancyGrid_no_majority:
  "FilterOccupancyGrid (example_grid 5 5
      [0, 0, 0, 0, 0,
       0, 0, 0, 0, 0,
       0, 0, 100, 0, 0,
       0, 0, 0, 0, 0,
       0, 0, 0, 0, 0]) 50 =
    Inr (example_grid 5 5
      [0, 0, 0, 0, 0,
       0, 0, 0, 0, 0,
       0, 0, 100, 0, 0,
       0, 0, 0, 0, 0,
       0, 0, 0, 0, 0])"
  by (simp add: filter_defs upt_rec)

text \<open>
  The vote cannot succeed on a full window for values strictly between 0 and the threshold
  either: every cell at or below the threshold is set to 0 when it is visited (line 300),
  so when the scan reaches the centre the 12 cells before it hold 0, and the 12 cells after
  it are not more than half of 25.
\<close>

lemma FilterOccupancyGrid_confident_neighbours:
  "FilterOccupancyGrid (example_grid 5 5
      [10, 10, 10, 10, 10,
       10, 10, 10, 10, 10,
       10, 10, 100, 10, 10,
       10, 10, 10, 10, 10,
       10, 10, 10, 10, 10]) 50 =
    Inr (example_grid 5 5
      [0, 0, 0, 0, 0,
       0, 0, 0, 0, 0,
       0, 0, 100, 0, 0,
       0, 0, 0, 0, 0,
       0, 0, 0, 0, 0])"
  by (simp add: filter_defs upt_rec)

text \<open>
  The rule behind it: a positive cell above the threshold is set to 100 when every other
  cell that the scan of its window reads holds 0 at that moment.
\<close>

lemma FilterOccupancyGrid_zero_neighbours:
  assumes run: "FilterOccupancyGrid g t = Inr g'"
    and y: "y < info_height g" and x: "x < info_width g"
    and k: "k = y * info_width g + x"
    and c: "real_of_int (data g ! k) > t" and pos: "data g ! k > 0"
    and cur: "cur = take k (data g') @ drop k (data g)"
    and reads: "reads = map (\<lambda>p. fst p * info_width g + snd p)
        (List.product (window_range y (info_height g)) (window_range x (info_width g)))"
    and zero: "\<forall>p \<in> set reads. p \<noteq> k \<longrightarrow> cur ! p = 0"
  shows "data g' ! k = 100"
proof -
  from FilterOccupancyGrid_visit [OF run y x k _ cur] c
  obtain cn where s: "scan_window cur (info_width g) (info_height g) t y x = Inr cn"
    and v: "data g' ! k = (if snd cn > fst cn div 2 then 0 else if data g ! k > 0 then 100 else - 1)"
    and ck: "cur ! k = data g ! k"
    by blast
  have "filter (\<lambda>p. 0 < cur ! p \<and> real_of_int (cur ! p) < t) reads = []"
    using zero ck c by (auto simp: filter_empty_conv)
  then have "snd cn = 0" using scan_window_count [OF s reads] by simp
  then show ?thesis using v pos by simp
qed

text \<open>
  C10. The scan of a window reads outside the array: both inner loops run while the index is
  at most the bound, and the bound is the height (the width) itself when the window reaches
  the last row (column). On the grid of one unknown cell the scan reads index 1 of an array
  of 1 cell; on a grid of 3 by 3 unknown cells the scan for the cell at row 0 and column 2
  reads index 9.
\<close>

theorem FilterOccupancyGrid_out_of_bounds:
  "FilterOccupancyGrid (example_grid 1 1 [- 1]) 50 = Inl OutOfBounds"
  by (simp add: filter_defs upt_rec)

lemma FilterOccupancyGrid_out_of_bounds_3x3:
  "FilterOccupancyGrid (example_grid 3 3 [- 1, - 1, - 1, - 1, - 1, - 1, - 1, - 1, - 1]) 50 = Inl OutOfBounds"
  by (simp add: filter_defs upt_rec)

text \<open>
  In general: the filter reads outside the array on every grid with a cell, negative or
  above the threshold, in one of the last two rows, unless its row or its column is 1 (where
  the first index of a loop wraps around and the loop does not run). Reading outside the
  array is the only error of the filter.
\<close>

lemma foldM_Inl:
  assumes "\<And>x s e. f x s = Inl e \<Longrightarrow> P e" and "foldM f xs s = Inl e"
  shows "P e"
  using assms(2)
proof (induction xs arbitrary: s)
  case Nil
  then show ?case by simp
next
  case (Cons x xs)
  then show ?case using assms(1) by (auto split: sum.splits)
qed

lemma scan_window_Inl: "scan_window cells w h t y x = Inl e \<Longrightarrow> e = OutOfBounds"
  unfolding scan_window_def
  by (erule foldM_Inl [rotated], erule foldM_Inl [rotated])
    (auto simp: scan_cell_def data_at_def split: if_splits)

lemma filter_cell_Inl: "filter_cell w h t y x cells = Inl e \<Longrightarrow> e = OutOfBounds"
  by (auto simp: filter_cell_def data_at_def dest: scan_window_Inl split: if_splits sum.splits)

lemma FilterOccupancyGrid_Inl: "FilterOccupancyGrid g t = Inl e \<Longrightarrow> e = OutOfBounds"
proof -
  assume a: "FilterOccupancyGrid g t = Inl e"
  then have "foldM (\<lambda>y. foldM (filter_cell (info_width g) (info_height g) t y) [0 ..< info_width g])
      [0 ..< info_height g] (data g) = Inl e"
    by (auto simp: FilterOccupancyGrid_def split: sum.splits)
  then show ?thesis
    by (rule foldM_Inl [rotated], elim foldM_Inl [rotated]) (rule filter_cell_Inl)
qed

lemma window_first_le:
  assumes "y \<noteq> 1" and "y < 2 ^ 32"
  shows "window_first y \<le> y"
proof (cases "y = 0")
  case True
  then show ?thesis by (simp add: window_first_def)
next
  case False
  then have "2 \<le> y" using assms(1) by simp
  then have "y + 2 ^ 64 - 2 = (y - 2) + 1 * 2 ^ 64" by simp
  then have "(y + 2 ^ 64 - 2) mod 2 ^ 64 = (y - 2) mod 2 ^ 64"
    by (simp only: mod_mult_self1)
  moreover have "y - 2 < (2::nat) ^ 64" using assms(2) by simp
  ultimately have "(y + 2 ^ 64 - 2) mod 2 ^ 64 = y - 2" by (simp only: mod_less)
  then show ?thesis using False by (simp add: window_first_def)
qed

lemma FilterOccupancyGrid_edge_fails:
  assumes len: "length (data g) = info_width g * info_height g"
    and u32: "info_width g < 2 ^ 32" "info_height g < 2 ^ 32"
    and y: "y < info_height g" and x: "x < info_width g"
    and edge: "info_height g \<le> y + 2" and wrap: "y \<noteq> 1" "x \<noteq> 1"
    and c: "data g ! (y * info_width g + x) < 0 \<or> real_of_int (data g ! (y * info_width g + x)) > t"
  shows "FilterOccupancyGrid g t = Inl OutOfBounds"
proof (cases "FilterOccupancyGrid g t")
  case (Inl e)
  then show ?thesis using FilterOccupancyGrid_Inl by blast
next
  case (Inr g')
  let ?w = "info_width g" and ?h = "info_height g"
  let ?k = "y * ?w + x"
  let ?cur = "take ?k (data g') @ drop ?k (data g)"
  let ?reads = "map (\<lambda>p. fst p * ?w + snd p) (List.product (window_range y ?h) (window_range x ?w))"
  from FilterOccupancyGrid_visit [OF Inr y x refl c refl]
  obtain cn where s: "scan_window ?cur ?w ?h t y x = Inr cn" and lc: "length ?cur = length (data g)"
    by blast
  from scan_window_count [OF s refl] have inb: "\<forall>k \<in> set ?reads. k < length ?cur" by simp
  have fy: "window_first y \<le> y" using window_first_le [OF wrap(1)] y u32(2) by simp
  have fx: "window_first x \<le> x" using window_first_le [OF wrap(2)] x u32(1) by simp
  have "window_last y ?h = ?h" using edge by (simp add: window_last_def)
  then have hy: "?h \<in> set (window_range y ?h)" using fy y by (simp add: window_range_def)
  have "x \<le> window_last x ?w" using x by (simp add: window_last_def)
  then have hx: "window_first x \<in> set (window_range x ?w)"
    using fx by (simp add: window_range_def) linarith
  have "?h * ?w + window_first x \<in> set ?reads"
    using hy hx by (auto simp: image_iff intro!: bexI [of _ "(?h, window_first x)"])
  then have "?h * ?w + window_first x < length ?cur" using inb by blast
  then show ?thesis using lc len by (simp add: mult.commute)
qed

subsection \<open>The two passes over the submaps\<close>

text \<open>
  The loop of \<^verbatim>\<open>CairoDrawEachSubmap\<close> leaves the function at the first submap
  without a surface: the callback runs on the submaps before it, in ascending order of
  their identities, and on none after it. When every submap has a surface, the callback runs
  on every one.
\<close>

lemma draw_each_stops:
  "surface (snd pair) = None \<Longrightarrow> draw_each ext (pair # rest) cr draw_callback acc = acc"
  by simp

lemma draw_each_prefix:
  "draw_each ext submaps cr draw_callback acc =
   draw_each ext (takeWhile (\<lambda>pair. surface (snd pair) \<noteq> None) submaps) cr draw_callback acc"
  by (induction submaps arbitrary: cr acc) (simp_all add: Let_def)

lemma draw_each_all:
  assumes "\<forall>pair \<in> set submaps. surface (snd pair) \<noteq> None"
  shows "draw_each ext submaps cr (\<lambda>cr submap_state acc. acc @ [submap_state]) acc
    = acc @ map snd submaps"
  using assms by (induction submaps arbitrary: cr acc) (simp_all add: Let_def)

text \<open>
  C4. A cache in which the submap \<open>(0, 0)\<close> was mentioned and never fetched and the submap
  \<open>(0, 1)\<close> has a surface: whatever the callback, the scale and the context, the pass ends
  at \<open>(0, 0)\<close> and the callback does not run on \<open>(0, 1)\<close>.
\<close>

theorem CairoDrawEachSubmap_returns_early:
  "CairoDrawEachSubmap ext scale
     [((0, 0), example_unfetched 3 5), ((0, 1), example_state 2 4 2)] cr draw_callback acc = acc"
  by (simp add: CairoDrawEachSubmap_def example_unfetched_def)

text \<open>An empty cache: the cycle ends with no message.\<close>

lemma DrawAndPublish_empty:
  "node_submaps node = [] \<Longrightarrow> DrawAndPublish ext node frame_id time = Inr None"
  by (simp add: DrawAndPublish_def)

text \<open>
  C5. A cache that is not empty and holds no surface, here the one submap of a message
  whose texture could not be fetched: the cycle does not end at the test of line 200. The
  bounding box stays empty, and the size of the canvas is the conversion to
  \<^verbatim>\<open>int\<close> of a value that is not an \<^verbatim>\<open>int\<close>.
\<close>

theorem DrawAndPublish_no_raster:
  "DrawAndPublish ext \<lparr>node_resolution = 1 / 20, node_submaps = [((0, 0), example_unfetched 3 5)]\<rparr>
     frame_id time = Inl UndefinedConversion"
  by (simp add: DrawAndPublish_def CairoDrawEachSubmap_def example_unfetched_def
      AlignedBox2f_empty_def sizes_def FLT_MAX_def float_to_int_def Let_def)

text \<open>
  C8. A cache with a submap that has a surface, behind one that has none: the first pass
  ends before it reaches the submap with the surface, the bounding box covers none of its
  corners and stays empty, and no canvas size comes out of it.
\<close>

theorem DrawAndPublish_drawable_behind_unfetched:
  "DrawAndPublish ext
     \<lparr>node_resolution = 1 / 20,
      node_submaps = [((0, 0), example_unfetched 3 5), ((0, 1), example_state 2 4 2)]\<rparr>
     frame_id time = Inl UndefinedConversion"
  by (simp add: DrawAndPublish_def CairoDrawEachSubmap_def example_unfetched_def
      AlignedBox2f_empty_def sizes_def FLT_MAX_def float_to_int_def Let_def)

text \<open>
  Both caches are reached from the empty one by a message: the first when the fetch of its
  only submap fails (below), the second when the fetch fails for the first of two submaps.
\<close>

lemma HandleSubmapList_first_fetch_fails:
  "HandleSubmapList (example_collaborators (\<lambda>k w. (None, w + 1))) 1
     \<lparr>list_frame_id = ''map'', list_stamp = 0, submap = [example_entry 0 5 3]\<rparr>
     \<lparr>node_resolution = 1 / 20, node_submaps = []\<rparr> 0 = Inl UndefinedConversion"
  by (simp add: HandleSubmapList_def handle_submaps_def handle_submap_def example_collaborators_def
      example_entry_def SubmapState_init_def DrawAndPublish_def CairoDrawEachSubmap_def
      AlignedBox2f_empty_def sizes_def FLT_MAX_def float_to_int_def Let_def)

subsection \<open>The passes when every submap has a surface\<close>

text \<open>
  \<^verbatim>\<open>cairo_restore\<close> gives back the context of the loop, so every submap is drawn
  from the same context and the pass is a fold over the submaps in ascending order.
\<close>

lemma cairo_restore_submap_context: "cairo_restore (submap_context ext cr submap_state) = cr"
  by (simp add: submap_context_def cairo_restore_def cairo_scale_def cairo_transform_def
      cairo_save_def Let_def)

lemma draw_each_fold:
  assumes "\<forall>pair \<in> set submaps. surface (snd pair) \<noteq> None"
  shows "draw_each ext submaps cr draw_callback acc =
    fold (\<lambda>pair. draw_callback (submap_context ext cr (snd pair)) (snd pair)) submaps acc"
  using assms
  by (induction submaps arbitrary: acc) (auto simp: Let_def cairo_restore_submap_context)

text \<open>
  The box of the first pass: it is extended by the four corners of every submap in device
  coordinates, and it is their bounding box.
\<close>

lemma bounding_box_callback_fold:
  "bounding_box_callback cr submap_state bounding_box =
     fold (\<lambda>p box. extend box (cairo_user_to_device cr p))
       [(0, 0), (real_of_int (width submap_state), 0), (0, real_of_int (height submap_state)),
        (real_of_int (width submap_state), real_of_int (height submap_state))] bounding_box"
  by (simp add: bounding_box_callback_def update_bounding_box_def)

lemma fold_extend_bounds:
  assumes "box = fold (\<lambda>p b. extend b p) ps box0"
  shows "(\<forall>p \<in> set ps. fst (m_min box) \<le> fst p \<and> fst p \<le> fst (m_max box)
                     \<and> snd (m_min box) \<le> snd p \<and> snd p \<le> snd (m_max box))
    \<and> fst (m_min box) \<le> fst (m_min box0) \<and> snd (m_min box) \<le> snd (m_min box0)
    \<and> fst (m_max box0) \<le> fst (m_max box) \<and> snd (m_max box0) \<le> snd (m_max box)
    \<and> fst (m_min box) \<in> insert (fst (m_min box0)) (fst ` set ps)
    \<and> snd (m_min box) \<in> insert (snd (m_min box0)) (snd ` set ps)
    \<and> fst (m_max box) \<in> insert (fst (m_max box0)) (fst ` set ps)
    \<and> snd (m_max box) \<in> insert (snd (m_max box0)) (snd ` set ps)"
  using assms
proof (induction ps arbitrary: box0)
  case Nil
  then show ?case by simp
next
  case (Cons p ps)
  let ?b1 = "extend box0 p"
  have box: "box = fold (\<lambda>p b. extend b p) ps ?b1" using Cons.prems by simp
  have e: "fst (m_min ?b1) = min (fst (m_min box0)) (fst p)"
    "snd (m_min ?b1) = min (snd (m_min box0)) (snd p)"
    "fst (m_max ?b1) = max (fst (m_max box0)) (fst p)"
    "snd (m_max ?b1) = max (snd (m_max box0)) (snd p)"
    by (simp_all add: extend_def)
  note ih = Cons.IH [OF box, unfolded e]
  have 1: "\<forall>q \<in> set (p # ps). fst (m_min box) \<le> fst q \<and> fst q \<le> fst (m_max box)
                     \<and> snd (m_min box) \<le> snd q \<and> snd q \<le> snd (m_max box)"
    using ih by auto
  have 2: "fst (m_min box) \<le> fst (m_min box0)" "snd (m_min box) \<le> snd (m_min box0)"
    "fst (m_max box0) \<le> fst (m_max box)" "snd (m_max box0) \<le> snd (m_max box)"
    using ih by auto
  have 3: "fst (m_min box) \<in> insert (fst (m_min box0)) (fst ` set (p # ps))"
    using ih by (auto simp: min_def split: if_splits)
  have 4: "snd (m_min box) \<in> insert (snd (m_min box0)) (snd ` set (p # ps))"
    using ih by (auto simp: min_def split: if_splits)
  have 5: "fst (m_max box) \<in> insert (fst (m_max box0)) (fst ` set (p # ps))"
    using ih by (auto simp: max_def split: if_splits)
  have 6: "snd (m_max box) \<in> insert (snd (m_max box0)) (snd ` set (p # ps))"
    using ih by (auto simp: max_def split: if_splits)
  from 1 2 3 4 5 6 show ?case by blast
qed

lemma bounding_box_pass:
  fixes ext :: "('p, 'w) Collaborators"
  assumes "\<forall>pair \<in> set submaps. surface (snd pair) \<noteq> None"
  shows "CairoDrawEachSubmap ext scale submaps cr bounding_box_callback box0 =
    fold (\<lambda>p b. extend b p)
      (concat (map (\<lambda>pair. map (cairo_user_to_device
                       (submap_context ext (cairo_scale cr scale scale) (snd pair)))
                 [(0, 0), (real_of_int (width (snd pair)), 0), (0, real_of_int (height (snd pair))),
                  (real_of_int (width (snd pair)), real_of_int (height (snd pair)))]) submaps))
      box0"
proof -
  have "fold (\<lambda>pair. bounding_box_callback (submap_context ext c (snd pair)) (snd pair)) ms b =
    fold (\<lambda>p b. extend b p)
      (concat (map (\<lambda>pair. map (cairo_user_to_device (submap_context ext c (snd pair)))
                 [(0, 0), (real_of_int (width (snd pair)), 0), (0, real_of_int (height (snd pair))),
                  (real_of_int (width (snd pair)), real_of_int (height (snd pair)))]) ms)) b"
    for c b and ms :: "(SubmapId \<times> 'p SubmapState) list"
    by (induction ms arbitrary: b) (simp_all add: bounding_box_callback_fold)
  then show ?thesis
    by (simp add: CairoDrawEachSubmap_def draw_each_fold [OF assms])
qed

lemma box_of_points:
  assumes box: "box = fold (\<lambda>p b. extend b p) points AlignedBox2f_empty"
    and ne: "points \<noteq> []"
    and bounded: "\<forall>p \<in> set points. \<bar>fst p\<bar> \<le> FLT_MAX \<and> \<bar>snd p\<bar> \<le> FLT_MAX"
  shows "fst (m_min box) = Min (fst ` set points)" and "snd (m_min box) = Min (snd ` set points)"
    and "fst (m_max box) = Max (fst ` set points)" and "snd (m_max box) = Max (snd ` set points)"
proof -
  note b = fold_extend_bounds [OF box]
  obtain q where q: "q \<in> set points" using ne by (cases points) auto
  have e: "fst (m_min AlignedBox2f_empty) = FLT_MAX" "snd (m_min AlignedBox2f_empty) = FLT_MAX"
    "fst (m_max AlignedBox2f_empty) = - FLT_MAX" "snd (m_max AlignedBox2f_empty) = - FLT_MAX"
    by (simp_all add: AlignedBox2f_empty_def)
  have le: "\<forall>p \<in> set points. fst (m_min box) \<le> fst p \<and> fst p \<le> fst (m_max box)
                     \<and> snd (m_min box) \<le> snd p \<and> snd p \<le> snd (m_max box)"
    using b by blast
  have "fst (m_min box) \<in> fst ` set points"
  proof (cases "fst (m_min box) = FLT_MAX")
    case True
    then have "fst q = FLT_MAX" using le q bounded by fastforce
    then show ?thesis using True q by force
  next
    case False
    then show ?thesis using b e by auto
  qed
  then show "fst (m_min box) = Min (fst ` set points)"
    using le by (intro Min_eqI [symmetric]) auto
  have "snd (m_min box) \<in> snd ` set points"
  proof (cases "snd (m_min box) = FLT_MAX")
    case True
    then have "snd q = FLT_MAX" using le q bounded by fastforce
    then show ?thesis using True q by force
  next
    case False
    then show ?thesis using b e by auto
  qed
  then show "snd (m_min box) = Min (snd ` set points)"
    using le by (intro Min_eqI [symmetric]) auto
  have "fst (m_max box) \<in> fst ` set points"
  proof (cases "fst (m_max box) = - FLT_MAX")
    case True
    then have "fst q = - FLT_MAX" using le q bounded by fastforce
    then show ?thesis using True q by force
  next
    case False
    then show ?thesis using b e by auto
  qed
  then show "fst (m_max box) = Max (fst ` set points)"
    using le by (intro Max_eqI [symmetric]) auto
  have "snd (m_max box) \<in> snd ` set points"
  proof (cases "snd (m_max box) = - FLT_MAX")
    case True
    then have "snd q = - FLT_MAX" using le q bounded by fastforce
    then show ?thesis using True q by force
  next
    case False
    then show ?thesis using b e by auto
  qed
  then show "snd (m_max box) = Max (snd ` set points)"
    using le by (intro Max_eqI [symmetric]) auto
qed

text \<open>
  The size of the canvas and of the published grid when every submap has a surface: the
  extent of the corners of all submaps in device coordinates, rounded up, plus 5 pixels on
  each side. (The corners are taken to be within the range of \<^verbatim>\<open>float\<close>.)
\<close>

lemma float_to_int_of_int:
  assumes "float_to_int (real_of_int n) = Inr m"
  shows "m = n \<and> - (2 ^ 31) \<le> n \<and> n < 2 ^ 31"
  using assms by (auto simp: float_to_int_def Let_def split: if_splits)

lemma PublishOccupancyGrid_size:
  assumes "PublishOccupancyGrid node frame_id time origin (sx, sy) pixel_data = Inr g"
  shows "info_width g = nat (sx mod 2 ^ 32) \<and> info_height g = nat (sy mod 2 ^ 32)"
  using assms by (auto simp: PublishOccupancyGrid_def split: if_splits sum.splits)

lemma u32_of_size:
  assumes "0 \<le> n" and "n < 2 ^ 31"
  shows "int (nat (n mod 2 ^ 32)) = n"
proof -
  have "n < 2 ^ 32" using assms(2) by simp
  then have "n mod 2 ^ 32 = n" using assms(1) by simp
  then show ?thesis using assms(1) by simp
qed

lemma DrawAndPublish_canvas_size:
  fixes ext :: "('p, 'w) Collaborators"
  assumes ne: "node_submaps node \<noteq> []"
    and all: "\<forall>pair \<in> set (node_submaps node). surface (snd pair) \<noteq> None"
    and pub: "DrawAndPublish ext node frame_id time = Inr (Some g)"
    and pts: "points = concat (map (\<lambda>pair. map (cairo_user_to_device
                 (submap_context ext
                    (cairo_scale cairo_create (1 / node_resolution node) (1 / node_resolution node))
                    (snd pair)))
                 [(0, 0), (real_of_int (width (snd pair)), 0), (0, real_of_int (height (snd pair))),
                  (real_of_int (width (snd pair)), real_of_int (height (snd pair)))])
               (node_submaps node))"
    and bounded: "\<forall>p \<in> set points. \<bar>fst p\<bar> \<le> FLT_MAX \<and> \<bar>snd p\<bar> \<le> FLT_MAX"
  shows "int (info_width g) = \<lceil>Max (fst ` set points) - Min (fst ` set points)\<rceil> + 10
    \<and> int (info_height g) = \<lceil>Max (snd ` set points) - Min (snd ` set points)\<rceil> + 10"
proof -
  let ?box = "CairoDrawEachSubmap ext (1 / node_resolution node) (node_submaps node) cairo_create
                bounding_box_callback AlignedBox2f_empty"
  have box: "?box = fold (\<lambda>p b. extend b p) points AlignedBox2f_empty"
    unfolding pts by (rule bounding_box_pass [OF all])
  have pne: "points \<noteq> []"
    using ne unfolding pts by (cases "node_submaps node") simp_all
  note mm = box_of_points [OF box pne bounded]
  have fin: "finite (fst ` set points)" "finite (snd ` set points)" by simp_all
  have nonempty: "fst ` set points \<noteq> {}" "snd ` set points \<noteq> {}" using pne by simp_all
  have ge: "0 \<le> Max (fst ` set points) - Min (fst ` set points)"
    "0 \<le> Max (snd ` set points) - Min (snd ` set points)"
    using Min_le [OF fin(1) Max_in [OF fin(1) nonempty(1)]]
      Min_le [OF fin(2) Max_in [OF fin(2) nonempty(2)]] by simp_all
  from pub ne obtain size_x size_y canvas where
    sx: "float_to_int (real_of_int \<lceil>fst (sizes ?box)\<rceil> + 2 * 5) = Inr size_x"
    and sy: "float_to_int (real_of_int \<lceil>snd (sizes ?box)\<rceil> + 2 * 5) = Inr size_y"
    and p: "PublishOccupancyGrid node frame_id time
              (- fst (m_min ?box) + 5, - snd (m_min ?box) + 5) (size_x, size_y) canvas = Inr g"
    by (auto simp: DrawAndPublish_def Let_def split: sum.splits if_splits)
  have "real_of_int \<lceil>fst (sizes ?box)\<rceil> + 2 * 5 = real_of_int (\<lceil>fst (sizes ?box)\<rceil> + 10)" by simp
  with sx have x: "size_x = \<lceil>fst (sizes ?box)\<rceil> + 10" "size_x < 2 ^ 31"
    using float_to_int_of_int [of "\<lceil>fst (sizes ?box)\<rceil> + 10" size_x] by simp_all
  have "real_of_int \<lceil>snd (sizes ?box)\<rceil> + 2 * 5 = real_of_int (\<lceil>snd (sizes ?box)\<rceil> + 10)" by simp
  with sy have y: "size_y = \<lceil>snd (sizes ?box)\<rceil> + 10" "size_y < 2 ^ 31"
    using float_to_int_of_int [of "\<lceil>snd (sizes ?box)\<rceil> + 10" size_y] by simp_all
  have s: "fst (sizes ?box) = Max (fst ` set points) - Min (fst ` set points)"
    "snd (sizes ?box) = Max (snd ` set points) - Min (snd ` set points)"
    by (simp_all add: sizes_def mm)
  have "0 \<le> \<lceil>fst (sizes ?box)\<rceil>" "0 \<le> \<lceil>snd (sizes ?box)\<rceil>"
    using s ge by (simp_all only: zero_le_ceiling)
  then have pos: "0 \<le> size_x" "0 \<le> size_y" using x(1) y(1) by simp_all
  have "int (info_width g) = int (nat (size_x mod 2 ^ 32))"
    "int (info_height g) = int (nat (size_y mod 2 ^ 32))"
    using PublishOccupancyGrid_size [OF p] by simp_all
  then have "int (info_width g) = size_x" "int (info_height g) = size_y"
    using u32_of_size [OF pos(1) x(2)] u32_of_size [OF pos(2) y(2)] by simp_all
  then show ?thesis using x(1) y(1) s by simp
qed

text \<open>
  One submap of one pixel with identity poses and the resolution of the grid: the canvas is
  11 by 11, and with a rasteriser that paints nothing every cell is unknown.
\<close>

lemma grid_cells_replicate:
  fixes W H :: nat
  assumes "cell_value p = Inr c" and "W * H < 2 ^ 31"
  shows "grid_cells (replicate (W * H) p) (int W, int H) = Inr (replicate (W * H) c)"
proof -
  let ?pd = "replicate (W * H) p"
  let ?rows = "map (\<lambda>y. map (\<lambda>x. projr (cell_value (?pd ! (y * W + x)))) [0 ..< W]) (rev [0 ..< H])"
  have g: "grid_cells ?pd (int W, int H) = Inr (concat ?rows)"
    using grid_cells_eq [of ?pd W H] assms(2) by simp
  have "projr (cell_value (?pd ! (y * W + x))) = c" if "y < H" "x < W" for y x
    using index_in_range [OF that] assms(1) by simp
  then have "\<forall>v \<in> set (concat ?rows). v = c" by auto
  then have "replicate (length (concat ?rows)) c = concat ?rows"
    by (rule replicate_length_same)
  moreover have "length (concat ?rows) = W * H"
  proof -
    have "length (concat ?rows) = length ?rows * W"
      by (rule length_concat_uniform) auto
    then show ?thesis by (simp add: mult.commute)
  qed
  ultimately show ?thesis using g by simp
qed

lemma DrawAndPublish_one_example_submap:
  "DrawAndPublish (example_collaborators fetch)
     \<lparr>node_resolution = 1 / 20, node_submaps = [(k, example_state v p mv)]\<rparr> ''map'' 7 =
   Inr (Some \<lparr> header_stamp = 7, header_frame_id = ''map'', info_map_load_time = 7,
               info_resolution = 1 / 20, info_width = 11, info_height = 11,
               origin_position = (- 3 / 10, - 3 / 10, 0), origin_orientation = (1, 0, 0, 0),
               data = replicate 121 (- 1) \<rparr>)"
proof -
  have c: "cell_value 0xFF800000 = Inr (- 1)" by (simp add: cell_value_eq)
  have g: "grid_cells (replicate 121 0xFF800000) (11, 11) = Inr (replicate 121 (- 1))"
    using grid_cells_replicate [OF c, of 11 11] by simp
  show ?thesis
    by (simp add: DrawAndPublish_def CairoDrawEachSubmap_def submap_context_def ToEigen_def
        example_collaborators_def example_state_def bounding_box_callback_def
        update_bounding_box_def extend_def cairo_user_to_device_def cairo_scale_def
        cairo_transform_def cairo_save_def cairo_restore_def cairo_create_def cairo_translate_def
        cairo_matrix_multiply_def cairo_matrix_init_def AlignedBox2f_empty_def FLT_MAX_def
        sizes_def float_to_int_def PublishOccupancyGrid_def Let_def g)
qed

subsection \<open>More on \<^verbatim>\<open>Node::HandleSubmapList\<close>\<close>

text \<open>
  Nothing is done when nobody listens. A successful fetch replaces the texture fields, the
  pixel words and the surface of the submap. The keys of the map stay in ascending order,
  the order in which the passes visit the submaps.
\<close>

lemma HandleSubmapList_nobody_listens:
  "HandleSubmapList ext 0 msg node world = Inr (node, world, [], None)"
  by (simp add: HandleSubmapList_def)

lemma handle_submap_sorted:
  assumes "handle_submap ext e st = Inr st'"
    and "sorted (map fst (fst st))" and "distinct (map fst (fst st))"
  shows "sorted (map fst (fst st')) \<and> distinct (map fst (fst st'))"
  using assms sorted_map_assign [OF assms(2,3)]
  by (auto simp: handle_submap_def Let_def
      split: if_splits prod.splits option.splits sum.splits)

lemma handle_submaps_sorted:
  assumes "handle_submaps ext es st = Inr st'"
    and "sorted (map fst (fst st))" and "distinct (map fst (fst st))"
  shows "sorted (map fst (fst st')) \<and> distinct (map fst (fst st'))"
  using assms
proof (induction es arbitrary: st)
  case Nil
  then show ?case by (simp add: handle_submaps_def)
next
  case (Cons a es)
  from Cons.prems(1) obtain st1 where 1: "handle_submap ext a st = Inr st1"
    and 2: "handle_submaps ext es st1 = Inr st'"
    by (auto simp: handle_submaps_def split: sum.splits)
  from handle_submap_sorted [OF 1 Cons.prems(2,3)] Cons.IH [OF 2] show ?case by simp
qed

text \<open>
  Two updates with the same entry: when the first leaves a surface cached at the reported
  version, the second changes nothing and does not fetch.
\<close>

lemma handle_submap_result_shape:
  assumes "handle_submap ext e st = Inr st1"
  shows "\<exists>s1. fst st1 = map_assign (trajectory_id e, submap_index e) s1 (fst st)
    \<and> pose s1 = entry_pose e \<and> metadata_version s1 = submap_version e"
  using assms
  by (auto simp: handle_submap_def Let_def
      split: if_splits prod.splits option.splits sum.splits)

lemma handle_submap_twice:
  assumes first: "handle_submap ext e st = Inr st1"
    and cached: "map_of (fst st1) (trajectory_id e, submap_index e) = Some s1"
      "surface s1 \<noteq> None" "version s1 = submap_version e"
  shows "handle_submap ext e st1 = Inr st1"
proof -
  let ?k = "(trajectory_id e, submap_index e)"
  from handle_submap_result_shape [OF first] obtain s where
    m: "fst st1 = map_assign ?k s (fst st)" and p: "pose s = entry_pose e"
    and v: "metadata_version s = submap_version e"
    by blast
  have "s1 = s" using cached(1) m by (simp add: map_of_map_assign)
  then have u: "s1\<lparr>pose := entry_pose e, metadata_version := submap_version e\<rparr> = s1"
    using p v by simp
  have "handle_submap ext e (fst st1, fst (snd st1), snd (snd st1)) =
      Inr (map_assign ?k (s1\<lparr>pose := entry_pose e, metadata_version := submap_version e\<rparr>) (fst st1),
           fst (snd st1), snd (snd st1))"
    by (rule handle_submap_cached_eq [OF cached])
  then have "handle_submap ext e (fst st1, snd st1) = Inr (fst st1, snd st1)"
    unfolding u using m \<open>s1 = s\<close> by (simp add: map_assign_idem)
  then show ?thesis by simp
qed

text \<open>The first message, with a fetch that succeeds: one submap is cached and a grid is
  published.\<close>

lemma HandleSubmapList_first_message:
  "HandleSubmapList (example_collaborators (\<lambda>k w. (Some (example_texture 5), Suc w))) 1
     \<lparr>list_frame_id = ''map'', list_stamp = 7, submap = [example_entry 0 5 3]\<rparr>
     \<lparr>node_resolution = 1 / 20, node_submaps = []\<rparr> 0 =
   Inr (\<lparr>node_resolution = 1 / 20, node_submaps = [((0, 0), example_state 5 3 5)]\<rparr>, Suc 0, [(0, 0)],
        Some \<lparr> header_stamp = 7, header_frame_id = ''map'', info_map_load_time = 7,
               info_resolution = 1 / 20, info_width = 11, info_height = 11,
               origin_position = (- 3 / 10, - 3 / 10, 0), origin_orientation = (1, 0, 0, 0),
               data = replicate 121 (- 1) \<rparr>)"
proof -
  let ?ext = "example_collaborators (\<lambda>k w. (Some (example_texture 5), Suc w))"
  have 1: "handle_submaps ?ext [example_entry 0 5 3] ([], 0, []) =
      Inr ([((0, 0), example_state 5 3 5)], Suc 0, [(0, 0)])"
    by (simp add: handle_submaps_def handle_submap_def example_collaborators_def example_entry_def
      example_state_def example_texture_def SubmapState_init_def Let_def fill_cairo_data_def
      push_pixel_def vector_at_def pack_pixel_def)
  show ?thesis
    by (simp add: HandleSubmapList_def 1 DrawAndPublish_one_example_submap)
qed

subsection \<open>The cache update inside \<^verbatim>\<open>Node::HandleSubmapList\<close>\<close>

text \<open>
  The handler runs the loop over the entries of the message and then draws and publishes.
  The entries that do not name a submap leave its state and its place in the list of the
  identities fetched as they are.
\<close>

lemma handle_submaps_append:
  "handle_submaps ext (xs @ ys) st =
     (case handle_submaps ext xs st of Inl err \<Rightarrow> Inl err | Inr st' \<Rightarrow> handle_submaps ext ys st')"
  by (simp add: handle_submaps_def foldM_append split: sum.splits)

lemma handle_submaps_single: "handle_submaps ext [e] st = handle_submap ext e st"
  by (simp add: handle_submaps_def split: sum.splits)

lemma handle_submap_fetches_only:
  assumes "handle_submap ext e st = Inr st'" and "k \<noteq> (trajectory_id e, submap_index e)"
  shows "(k \<in> set (snd (snd st'))) = (k \<in> set (snd (snd st)))"
  using assms
  by (auto simp: handle_submap_def Let_def
      split: if_splits prod.splits option.splits sum.splits)

lemma handle_submaps_others:
  assumes "handle_submaps ext es st = Inr st'"
    and "\<forall>x \<in> set es. (trajectory_id x, submap_index x) \<noteq> k"
  shows "map_of (fst st') k = map_of (fst st) k
    \<and> (k \<in> set (snd (snd st'))) = (k \<in> set (snd (snd st)))"
  using assms unfolding handle_submaps_def
proof (induction es arbitrary: st)
  case Nil
  then show ?case by simp
next
  case (Cons e es)
  then obtain st1 where 1: "handle_submap ext e st = Inr st1"
    and 2: "foldM (handle_submap ext) es st1 = Inr st'"
    by (auto split: sum.splits)
  have k: "k \<noteq> (trajectory_id e, submap_index e)" using Cons.prems(2) by auto
  have r: "\<forall>x \<in> set es. (trajectory_id x, submap_index x) \<noteq> k" using Cons.prems(2) by simp
  from handle_submap_other [OF 1 k] handle_submap_fetches_only [OF 1 k] Cons.IH [OF 2 r]
  show ?case by simp
qed

lemma HandleSubmapList_rest:
  assumes "0 < num_subscribers" and "submap msg = before @ e # after"
    and "handle_submaps ext (before @ [e]) (node_submaps node, world, []) = Inr st1"
  shows "HandleSubmapList ext num_subscribers msg node world =
    (case handle_submaps ext after st1 of
       Inl err \<Rightarrow> Inl err
     | Inr st \<Rightarrow>
         (case DrawAndPublish ext (node\<lparr>node_submaps := fst st\<rparr>) (list_frame_id msg) (list_stamp msg) of
            Inl err \<Rightarrow> Inl err
          | Inr published \<Rightarrow> Inr (node\<lparr>node_submaps := fst st\<rparr>, fst (snd st), snd (snd st), published)))"
proof -
  have "before @ e # after = (before @ [e]) @ after" by simp
  then have "handle_submaps ext (submap msg) (node_submaps node, world, []) =
      handle_submaps ext after st1"
    using assms(2,3) handle_submaps_append [of ext "before @ [e]" after] by simp
  then show ?thesis using assms(1) by (simp add: HandleSubmapList_def Let_def split: sum.splits)
qed

lemma HandleSubmapList_returns:
  assumes "HandleSubmapList ext num_subscribers msg node world = Inr (node', world', fetched, published)"
    and "0 < num_subscribers"
  shows "handle_submaps ext (submap msg) (node_submaps node, world, []) =
      Inr (node_submaps node', world', fetched)"
  using assms
  by (auto simp: HandleSubmapList_def Let_def split: sum.splits)

text \<open>
  Two caches of concrete runs: a submap with a surface followed by one that was never
  fetched. The passes stop at the second submap, after the first one was drawn.
\<close>

lemma DrawAndPublish_example_then_unfetched:
  "DrawAndPublish (example_collaborators fetch)
     \<lparr>node_resolution = 1 / 20,
      node_submaps = [(k, example_state v p mv), (k', example_unfetched p' mv')]\<rparr> ''map'' 7 =
   Inr (Some \<lparr> header_stamp = 7, header_frame_id = ''map'', info_map_load_time = 7,
               info_resolution = 1 / 20, info_width = 11, info_height = 11,
               origin_position = (- 3 / 10, - 3 / 10, 0), origin_orientation = (1, 0, 0, 0),
               data = replicate 121 (- 1) \<rparr>)"
proof -
  have c: "cell_value 0xFF800000 = Inr (- 1)" by (simp add: cell_value_eq)
  have g: "grid_cells (replicate 121 0xFF800000) (11, 11) = Inr (replicate 121 (- 1))"
    using grid_cells_replicate [OF c, of 11 11] by simp
  show ?thesis
    by (simp add: DrawAndPublish_def CairoDrawEachSubmap_def submap_context_def ToEigen_def
        example_collaborators_def example_state_def example_unfetched_def bounding_box_callback_def
        update_bounding_box_def extend_def cairo_user_to_device_def cairo_scale_def
        cairo_transform_def cairo_save_def cairo_restore_def cairo_create_def cairo_translate_def
        cairo_matrix_multiply_def cairo_matrix_init_def AlignedBox2f_empty_def FLT_MAX_def
        sizes_def float_to_int_def PublishOccupancyGrid_def Let_def g)
qed

text \<open>
  C6, as amended. Let a message be handled while the publisher has a subscriber, and let the
  loop reach an entry whose submap has, at that moment, a surface and the reported version
  as the version of its texture. The entry is handled without a call of
  \<^verbatim>\<open>FetchSubmapTexture\<close>: the world outside and the list of the identities fetched
  are as before the entry. Width, height, version, resolution, slice pose, surface and pixel
  words of the submap are as before, its pose and metadata version are those of the message,
  no other submap changes, and the handler goes on with the rest of the message from this
  state. When no other entry of the message names the submap and the handler returns, this
  is the state of the submap in the cache the handler leaves, and the submap is not among
  those fetched. The cache is any cache, also the one a first update left: a second update
  with the same identity and version does not fetch when the first one left a surface cached
  at that version.
\<close>

theorem HandleSubmapList_cached:
  assumes subs: "0 < num_subscribers"
    and msg: "submap msg = before @ e # after"
    and reach: "handle_submaps ext before (node_submaps node, world, []) = Inr (submaps, world1, fetched1)"
    and cached: "map_of submaps (trajectory_id e, submap_index e) = Some s"
      "surface s \<noteq> None" "version s = submap_version e"
  shows "\<exists>submaps' s'.
      handle_submaps ext (before @ [e]) (node_submaps node, world, []) = Inr (submaps', world1, fetched1)
    \<and> map_of submaps' (trajectory_id e, submap_index e) = Some s'
    \<and> width s' = width s \<and> height s' = height s \<and> version s' = version s
    \<and> resolution s' = resolution s \<and> slice_pose s' = slice_pose s
    \<and> surface s' = surface s \<and> cairo_data s' = cairo_data s
    \<and> pose s' = entry_pose e \<and> metadata_version s' = submap_version e
    \<and> (\<forall>k. k \<noteq> (trajectory_id e, submap_index e) \<longrightarrow> map_of submaps' k = map_of submaps k)
    \<and> HandleSubmapList ext num_subscribers msg node world =
        (case handle_submaps ext after (submaps', world1, fetched1) of
           Inl err \<Rightarrow> Inl err
         | Inr st \<Rightarrow>
             (case DrawAndPublish ext (node\<lparr>node_submaps := fst st\<rparr>) (list_frame_id msg) (list_stamp msg) of
                Inl err \<Rightarrow> Inl err
              | Inr published \<Rightarrow> Inr (node\<lparr>node_submaps := fst st\<rparr>, fst (snd st), snd (snd st), published)))
    \<and> (\<forall>node' world' fetched published.
          HandleSubmapList ext num_subscribers msg node world = Inr (node', world', fetched, published)
          \<and> (\<forall>x \<in> set (before @ after).
                (trajectory_id x, submap_index x) \<noteq> (trajectory_id e, submap_index e))
          \<longrightarrow> map_of (node_submaps node') (trajectory_id e, submap_index e) = Some s'
              \<and> (trajectory_id e, submap_index e) \<notin> set fetched)"
proof -
  let ?k = "(trajectory_id e, submap_index e)"
  let ?s = "s\<lparr>pose := entry_pose e, metadata_version := submap_version e\<rparr>"
  let ?m = "map_assign ?k ?s submaps"
  have 1: "handle_submaps ext (before @ [e]) (node_submaps node, world, []) = Inr (?m, world1, fetched1)"
    using handle_submap_cached_eq [OF cached, of ext world1 fetched1] reach
    by (simp add: handle_submaps_append handle_submaps_single)
  have 2: "map_of ?m ?k = Some ?s" by (simp add: map_of_map_assign)
  have 3: "width ?s = width s \<and> height ?s = height s \<and> version ?s = version s
    \<and> resolution ?s = resolution s \<and> slice_pose ?s = slice_pose s
    \<and> surface ?s = surface s \<and> cairo_data ?s = cairo_data s
    \<and> pose ?s = entry_pose e \<and> metadata_version ?s = submap_version e"
    by simp
  have 4: "\<forall>k. k \<noteq> ?k \<longrightarrow> map_of ?m k = map_of submaps k"
    by (simp add: map_of_map_assign)
  note 5 = HandleSubmapList_rest [OF subs msg 1]
  have 6: "map_of (node_submaps node') ?k = Some ?s \<and> ?k \<notin> set fetched"
    if ret: "HandleSubmapList ext num_subscribers msg node world = Inr (node', world', fetched, published)"
      and once: "\<forall>x \<in> set (before @ after). (trajectory_id x, submap_index x) \<noteq> ?k"
    for node' world' fetched published
  proof -
    have b: "\<forall>x \<in> set before. (trajectory_id x, submap_index x) \<noteq> ?k"
      and a: "\<forall>x \<in> set after. (trajectory_id x, submap_index x) \<noteq> ?k"
      using once by simp_all
    have f1: "?k \<notin> set fetched1"
      using handle_submaps_others [OF reach b] by simp
    have "handle_submaps ext (submap msg) (node_submaps node, world, []) =
        Inr (node_submaps node', world', fetched)"
      using HandleSubmapList_returns [OF ret subs] .
    then have "handle_submaps ext after (?m, world1, fetched1) = Inr (node_submaps node', world', fetched)"
      using msg 1 handle_submaps_append [of ext "before @ [e]" after] by simp
    from handle_submaps_others [OF this a] 2 f1 show ?thesis by simp
  qed
  show ?thesis
    by (rule exI [of _ ?m], rule exI [of _ ?s]) (use 1 2 3 4 5 6 in blast)
qed

text \<open>
  A message of two entries on a cache that holds the first submap at the reported version 5:
  the first submap keeps its texture and takes the pose 3 and the metadata version 5 of the
  message, and only the second submap is fetched.
\<close>

theorem HandleSubmapList_cached_witness:
  "HandleSubmapList (example_collaborators (\<lambda>k w. (None, w + 1))) 1
     \<lparr>list_frame_id = ''map'', list_stamp = 7, submap = [example_entry 0 5 3, example_entry 1 2 4]\<rparr>
     \<lparr>node_resolution = 1 / 20, node_submaps = [((0, 0), example_state 5 1 4)]\<rparr> 0 =
   Inr (\<lparr>node_resolution = 1 / 20,
         node_submaps = [((0, 0), example_state 5 3 5), ((0, 1), example_unfetched 4 2)]\<rparr>,
        1, [(0, 1)],
        Some \<lparr> header_stamp = 7, header_frame_id = ''map'', info_map_load_time = 7,
               info_resolution = 1 / 20, info_width = 11, info_height = 11,
               origin_position = (- 3 / 10, - 3 / 10, 0), origin_orientation = (1, 0, 0, 0),
               data = replicate 121 (- 1) \<rparr>)"
proof -
  let ?ext = "example_collaborators (\<lambda>k w. (None, w + 1))"
  let ?e = "example_entry 0 5 3"
  let ?msg = "\<lparr>list_frame_id = ''map'', list_stamp = 7, submap = [?e, example_entry 1 2 4]\<rparr>"
  let ?node = "\<lparr>node_resolution = 1 / 20, node_submaps = [((0, 0), example_state 5 1 4)]\<rparr>"
  note defs = handle_submaps_def handle_submap_def example_collaborators_def example_entry_def
      example_state_def example_unfetched_def SubmapState_init_def Let_def
  have a: "(0::nat) < 1" "submap ?msg = [] @ ?e # [example_entry 1 2 4]"
    "handle_submaps ?ext [] (node_submaps ?node, 0, []) = Inr ([((0, 0), example_state 5 1 4)], 0, [])"
    "map_of [((0, 0), example_state 5 1 4)] (trajectory_id ?e, submap_index ?e)
      = Some (example_state 5 1 4)"
    "surface (example_state 5 1 4) \<noteq> None"
    "version (example_state 5 1 4) = submap_version ?e"
    by (simp_all add: defs)
  from HandleSubmapList_cached [OF a]
  obtain submaps' where
    1: "handle_submaps ?ext ([] @ [?e]) (node_submaps ?node, 0, []) = Inr (submaps', 0, [])"
    and 2: "HandleSubmapList ?ext 1 ?msg ?node 0 =
        (case handle_submaps ?ext [example_entry 1 2 4] (submaps', 0, []) of
           Inl err \<Rightarrow> Inl err
         | Inr st \<Rightarrow>
             (case DrawAndPublish ?ext (?node\<lparr>node_submaps := fst st\<rparr>) (list_frame_id ?msg) (list_stamp ?msg) of
                Inl err \<Rightarrow> Inl err
              | Inr published \<Rightarrow> Inr (?node\<lparr>node_submaps := fst st\<rparr>, fst (snd st), snd (snd st), published)))"
    by blast
  have 3: "submaps' = [((0, 0), example_state 5 3 5)]"
    using 1 by (simp add: defs)
  have 4: "handle_submaps ?ext [example_entry 1 2 4] ([((0, 0), example_state 5 3 5)], 0, []) =
      Inr ([((0, 0), example_state 5 3 5), ((0, 1), example_unfetched 4 2)], 1, [(0, 1)])"
    by (simp add: defs)
  show ?thesis
    unfolding 2 3 4 by (simp add: DrawAndPublish_example_then_unfetched)
qed

text \<open>
  A second update with the same identity and version can fetch again: the texture fetched by
  the first update carries its own version (7 here, for the reported version 5), and it is
  the version of the texture that the next message is compared with.
\<close>

theorem HandleSubmapList_refetches_counterexample:
  "HandleSubmapList (example_collaborators (\<lambda>k w. (Some (example_texture 7), Suc w))) 1
     \<lparr>list_frame_id = ''map'', list_stamp = 7, submap = [example_entry 0 5 3]\<rparr>
     \<lparr>node_resolution = 1 / 20, node_submaps = []\<rparr> 0 =
   Inr (\<lparr>node_resolution = 1 / 20, node_submaps = [((0, 0), example_state 7 3 5)]\<rparr>, Suc 0, [(0, 0)],
        Some \<lparr> header_stamp = 7, header_frame_id = ''map'', info_map_load_time = 7,
               info_resolution = 1 / 20, info_width = 11, info_height = 11,
               origin_position = (- 3 / 10, - 3 / 10, 0), origin_orientation = (1, 0, 0, 0),
               data = replicate 121 (- 1) \<rparr>)
   \<and> HandleSubmapList (example_collaborators (\<lambda>k w. (Some (example_texture 7), Suc w))) 1
     \<lparr>list_frame_id = ''map'', list_stamp = 7, submap = [example_entry 0 5 3]\<rparr>
     \<lparr>node_resolution = 1 / 20, node_submaps = [((0, 0), example_state 7 3 5)]\<rparr> (Suc 0) =
   Inr (\<lparr>node_resolution = 1 / 20, node_submaps = [((0, 0), example_state 7 3 5)]\<rparr>, 2, [(0, 0)],
        Some \<lparr> header_stamp = 7, header_frame_id = ''map'', info_map_load_time = 7,
               info_resolution = 1 / 20, info_width = 11, info_height = 11,
               origin_position = (- 3 / 10, - 3 / 10, 0), origin_orientation = (1, 0, 0, 0),
               data = replicate 121 (- 1) \<rparr>)"
proof -
  let ?ext = "example_collaborators (\<lambda>k w. (Some (example_texture 7), Suc w))"
  note defs = handle_submaps_def handle_submap_def example_collaborators_def example_entry_def
      example_state_def example_texture_def SubmapState_init_def Let_def fill_cairo_data_def
      push_pixel_def vector_at_def pack_pixel_def
  have 1: "handle_submaps ?ext [example_entry 0 5 3] ([], 0, []) =
      Inr ([((0, 0), example_state 7 3 5)], Suc 0, [(0, 0)])"
    by (simp add: defs)
  have 2: "handle_submaps ?ext [example_entry 0 5 3] ([((0, 0), example_state 7 3 5)], Suc 0, []) =
      Inr ([((0, 0), example_state 7 3 5)], 2, [(0, 0)])"
    by (simp add: defs)
  show ?thesis
    by (simp add: HandleSubmapList_def 1 2 DrawAndPublish_one_example_submap)
qed




end
